theory Spec2Isabelle
  imports Complex_Main "HOL-Library.Word"
begin

section \<open>JavaScript numbers, with exact arithmetic on the finite values\<close>

text \<open>
  The demo computes with JavaScript numbers: binary64 values, with the special values
  \<open>Infinity\<close>, \<open>-Infinity\<close> and \<open>NaN\<close> that a division by zero produces and
  propagates. A finite number is given by the rational it denotes. The operations
  \<open>jadd\<close>, \<open>jsub\<close>, \<open>jmul\<close> and \<open>jdiv\<close> of this section compute on the finite values
  without rounding; the same operations with every finite result rounded, and the
  rounding \<open>binary64\<close> of the running code, follow further down. The sign of zero is not
  modelled (a zero divisor counts as \<open>+0\<close>, which is what
  \<open>dot00 * dot11 - dot01 * dot01\<close> evaluates to when it vanishes).
\<close>


datatype jsnum = Fin rat | PInf | NInf | NaN

fun jadd :: "jsnum \<Rightarrow> jsnum \<Rightarrow> jsnum" where
  "jadd (Fin a) (Fin b) = Fin (a + b)"
| "jadd (Fin a) PInf = PInf"
| "jadd (Fin a) NInf = NInf"
| "jadd PInf (Fin b) = PInf"
| "jadd PInf PInf = PInf"
| "jadd PInf NInf = NaN"
| "jadd NInf (Fin b) = NInf"
| "jadd NInf NInf = NInf"
| "jadd NInf PInf = NaN"
| "jadd NaN y = NaN"
| "jadd x NaN = NaN"

fun jsub :: "jsnum \<Rightarrow> jsnum \<Rightarrow> jsnum" where
  "jsub (Fin a) (Fin b) = Fin (a - b)"
| "jsub (Fin a) PInf = NInf"
| "jsub (Fin a) NInf = PInf"
| "jsub PInf (Fin b) = PInf"
| "jsub PInf PInf = NaN"
| "jsub PInf NInf = PInf"
| "jsub NInf (Fin b) = NInf"
| "jsub NInf NInf = NaN"
| "jsub NInf PInf = NInf"
| "jsub NaN y = NaN"
| "jsub x NaN = NaN"

text \<open>The sign of an infinite product or quotient: \<open>0 * Infinity\<close> is \<open>NaN\<close>.\<close>

definition signed_inf :: "rat \<Rightarrow> jsnum" where
  "signed_inf s = (if s = 0 then NaN else if 0 < s then PInf else NInf)"

fun jmul :: "jsnum \<Rightarrow> jsnum \<Rightarrow> jsnum" where
  "jmul (Fin a) (Fin b) = Fin (a * b)"
| "jmul (Fin a) PInf = signed_inf a"
| "jmul (Fin a) NInf = signed_inf (- a)"
| "jmul PInf (Fin b) = signed_inf b"
| "jmul PInf PInf = PInf"
| "jmul PInf NInf = NInf"
| "jmul NInf (Fin b) = signed_inf (- b)"
| "jmul NInf NInf = PInf"
| "jmul NInf PInf = NInf"
| "jmul NaN y = NaN"
| "jmul x NaN = NaN"

fun jdiv :: "jsnum \<Rightarrow> jsnum \<Rightarrow> jsnum" where
  "jdiv (Fin a) (Fin b) = (if b = 0 then signed_inf a else Fin (a / b))"
| "jdiv (Fin a) PInf = Fin 0"
| "jdiv (Fin a) NInf = Fin 0"
| "jdiv PInf (Fin b) = (if 0 \<le> b then PInf else NInf)"
| "jdiv NInf (Fin b) = (if 0 \<le> b then NInf else PInf)"
| "jdiv PInf PInf = NaN"
| "jdiv PInf NInf = NaN"
| "jdiv NInf NInf = NaN"
| "jdiv NInf PInf = NaN"
| "jdiv NaN y = NaN"
| "jdiv x NaN = NaN"

text \<open>\<open>x <= y\<close>; every comparison with \<open>NaN\<close> is false. \<open>x >= y\<close> is \<open>jle y x\<close>.\<close>

fun jle :: "jsnum \<Rightarrow> jsnum \<Rightarrow> bool" where
  "jle (Fin a) (Fin b) = (a \<le> b)"
| "jle (Fin a) PInf = True"
| "jle (Fin a) NInf = False"
| "jle PInf (Fin b) = False"
| "jle PInf PInf = True"
| "jle PInf NInf = False"
| "jle NInf (Fin b) = True"
| "jle NInf NInf = True"
| "jle NInf PInf = True"
| "jle NaN y = False"
| "jle x NaN = False"

definition jge :: "jsnum \<Rightarrow> jsnum \<Rightarrow> bool" where
  "jge x y = jle y x"

text \<open>\<open>Math.floor\<close>: the special values are returned as they are.\<close>

fun jfloor :: "jsnum \<Rightarrow> jsnum" where
  "jfloor (Fin a) = Fin (of_int \<lfloor>a\<rfloor>)"
| "jfloor x = x"

text \<open>A loop counter or a buffer dimension, read as a number.\<close>

definition num :: "nat \<Rightarrow> jsnum" where
  "num n = Fin (of_nat n)"


section \<open>Vector math\<close>

text \<open>A vector is a two-element array of numbers, a triangle an array of three vectors.\<close>

type_synonym vec = "jsnum \<times> jsnum"
type_synonym triangle = "vec \<times> vec \<times> vec"

fun add :: "vec \<Rightarrow> vec \<Rightarrow> vec" where
  "add (v00, v01) (v10, v11) = (jadd v00 v10, jadd v01 v11)"

fun sub :: "vec \<Rightarrow> vec \<Rightarrow> vec" where
  "sub (v00, v01) (v10, v11) = (jsub v00 v10, jsub v01 v11)"

fun dot :: "vec \<Rightarrow> vec \<Rightarrow> jsnum" where
  "dot (v00, v01) (v10, v11) = jadd (jmul v00 v10) (jmul v01 v11)"

fun mul :: "jsnum \<Rightarrow> vec \<Rightarrow> vec" where
  "mul k (v0, v1) = (jmul k v0, jmul k v1)"


section \<open>Cartesian and barycentric coordinates\<close>

fun cartesian_to_barycentric :: "triangle \<Rightarrow> vec \<Rightarrow> vec" where
  "cartesian_to_barycentric (a, b, c) xy =
     (let v0 = sub c a;
          v1 = sub b a;
          v2 = sub xy a;
          dot00 = dot v0 v0;
          dot01 = dot v0 v1;
          dot02 = dot v0 v2;
          dot11 = dot v1 v1;
          dot12 = dot v1 v2;
          invDenom = jdiv (Fin 1) (jsub (jmul dot00 dot11) (jmul dot01 dot01));
          u = jmul (jsub (jmul dot11 dot02) (jmul dot01 dot12)) invDenom;
          v = jmul (jsub (jmul dot00 dot12) (jmul dot01 dot02)) invDenom
      in (u, v))"

fun barycentric_to_cartesian :: "triangle \<Rightarrow> vec \<Rightarrow> vec" where
  "barycentric_to_cartesian (a, b, c) (u, v) =
     (let ba = sub b a;
          ca = sub c a
      in add a (add (mul u ca) (mul v ba)))"

text \<open>A point and a triangle with finite coordinates.\<close>

fun pt :: "rat \<times> rat \<Rightarrow> vec" where
  "pt (x, y) = (Fin x, Fin y)"

definition tri :: "rat \<times> rat \<Rightarrow> rat \<times> rat \<Rightarrow> rat \<times> rat \<Rightarrow> triangle" where
  "tri A B C = (pt A, pt B, pt C)"

text \<open>
  Twice the signed area of the triangle; it vanishes exactly when the three corners
  are collinear, that is, when the triangle is degenerate.
\<close>

fun area2 :: "rat \<times> rat \<Rightarrow> rat \<times> rat \<Rightarrow> rat \<times> rat \<Rightarrow> rat" where
  "area2 (ax, ay) (bx, by) (cx, cy) = (cx - ax) * (by - ay) - (cy - ay) * (bx - ax)"

definition degenerate :: "rat \<times> rat \<Rightarrow> rat \<times> rat \<Rightarrow> rat \<times> rat \<Rightarrow> bool" where
  "degenerate A B C = (area2 A B C = 0)"

text \<open>The denominator \<open>dot00 * dot11 - dot01 * dot01\<close> of the source, on finite corners.\<close>

fun denom :: "rat \<times> rat \<Rightarrow> rat \<times> rat \<Rightarrow> rat \<times> rat \<Rightarrow> rat" where
  "denom (ax, ay) (bx, by) (cx, cy) =
     ((cx - ax) * (cx - ax) + (cy - ay) * (cy - ay)) * ((bx - ax) * (bx - ax) + (by - ay) * (by - ay))
     - ((cx - ax) * (bx - ax) + (cy - ay) * (by - ay)) * ((cx - ax) * (bx - ax) + (cy - ay) * (by - ay))"


section \<open>Image data\<close>

text \<open>
  An \<open>ImageData\<close> object of the canvas: its dimensions and its \<open>data\<close>, a
  \<open>Uint8ClampedArray\<close> with four bytes (red, green, blue, alpha) per pixel. The
  objects live in a store indexed by object identity, so that the same object may be
  passed as source and as destination.
\<close>

type_synonym byte = "8 word"

record image_data =
  width :: nat
  height :: nat
  data :: "byte list"

type_synonym heap = "nat \<Rightarrow> image_data"

definition PIXEL_WIDTH :: nat where
  "PIXEL_WIDTH = 4"

text \<open>
  \<open>array[i]\<close> on a typed array: \<open>undefined\<close> (here \<open>None\<close>) unless \<open>i\<close> is an
  integer index inside the array.
\<close>

fun array_get :: "byte list \<Rightarrow> jsnum \<Rightarrow> byte option" where
  "array_get xs (Fin q) =
     (if of_int \<lfloor>q\<rfloor> = q \<and> 0 \<le> q \<and> nat \<lfloor>q\<rfloor> < length xs then Some (xs ! nat \<lfloor>q\<rfloor>) else None)"
| "array_get xs PInf = None"
| "array_get xs NInf = None"
| "array_get xs NaN = None"

text \<open>
  \<open>array[i] = v\<close> on a \<open>Uint8ClampedArray\<close>: \<open>undefined\<close> is converted to \<open>NaN\<close>
  and stored as 0; a store outside the array is ignored.
\<close>

fun to_clamped :: "byte option \<Rightarrow> byte" where
  "to_clamped None = 0"
| "to_clamped (Some b) = b"

definition array_set :: "byte list \<Rightarrow> nat \<Rightarrow> byte option \<Rightarrow> byte list" where
  "array_set xs i v = (if i < length xs then xs[i := to_clamped v] else xs)"

definition read_data :: "heap \<Rightarrow> nat \<Rightarrow> jsnum \<Rightarrow> byte option" where
  "read_data h a i = array_get (data (h a)) i"

definition write_data :: "heap \<Rightarrow> nat \<Rightarrow> nat \<Rightarrow> byte option \<Rightarrow> heap" where
  "write_data h a i v = h(a := (h a)\<lparr>data := array_set (data (h a)) i v\<rparr>)"

text \<open>The canvas creates image data with four bytes for each of its pixels.\<close>

definition well_formed :: "image_data \<Rightarrow> bool" where
  "well_formed img = (length (data img) = PIXEL_WIDTH * (width img * height img))"


section \<open>Mapping a triangle\<close>

text \<open>The test \<open>uv[0] >= 0 && uv[1] >= 0 && uv[0] + uv[1] <= 1\<close>.\<close>

definition xy_in_triangle :: "vec \<Rightarrow> bool" where
  "xy_in_triangle uv =
     (jge (fst uv) (Fin 0) \<and> jge (snd uv) (Fin 0) \<and> jle (jadd (fst uv) (snd uv)) (Fin 1))"

text \<open>
  The flat offsets \<open>PIXEL_WIDTH * (x + y * dst_image_data.width)\<close> of a destination
  pixel and
  \<open>PIXEL_WIDTH * (Math.floor(src_xy[0]) + Math.floor(src_xy[1]) * src_image_data.width)\<close>
  of the source pixel sampled for it. The first is computed from loop counters and is a
  natural number; the second is whatever number the arithmetic yields.
\<close>

definition dst_pixel_start :: "nat \<Rightarrow> nat \<Rightarrow> nat \<Rightarrow> nat" where
  "dst_pixel_start dst_width x y = PIXEL_WIDTH * (x + y * dst_width)"

definition src_pixel_start :: "nat \<Rightarrow> vec \<Rightarrow> jsnum" where
  "src_pixel_start src_width src_xy =
     jmul (num PIXEL_WIDTH) (jadd (jfloor (fst src_xy)) (jmul (jfloor (snd src_xy)) (num src_width)))"

text \<open>
  The body of the inner loop of \<open>map_triangle\<close>, for the destination pixel \<open>(x, y)\<close>.
  \<open>src\<close> and \<open>dst\<close> are the identities of the two image data objects. (The source
  assigns \<open>src_xy\<close> and \<open>src_pixel_start\<close> without declaring them; they are written
  before they are read in every iteration, and are bound locally here. The state with
  the two global variables is that of \<open>map_pixel_js\<close> below.)
\<close>

definition map_pixel :: "nat \<Rightarrow> triangle \<Rightarrow> nat \<Rightarrow> triangle \<Rightarrow> nat \<Rightarrow> nat \<Rightarrow> heap \<Rightarrow> heap" where
  "map_pixel src src_triangle dst dst_triangle x y h =
     (let uv = cartesian_to_barycentric dst_triangle (num x, num y);
          d = dst_pixel_start (width (h dst)) x y
      in if xy_in_triangle uv then
           (let src_xy = barycentric_to_cartesian src_triangle uv;
                s = src_pixel_start (width (h src)) src_xy;
                h1 = write_data h dst d (read_data h src s);
                h2 = write_data h1 dst (d + 1) (read_data h1 src (jadd s (Fin 1)));
                h3 = write_data h2 dst (d + 2) (read_data h2 src (jadd s (Fin 2)));
                h4 = write_data h3 dst (d + 3) (read_data h3 src (jadd s (Fin 3)))
            in h4)
         else
           (let h1 = write_data h dst d (Some 255);
                h2 = write_data h1 dst (d + 1) (Some 255);
                h3 = write_data h2 dst (d + 2) (Some 255);
                h4 = write_data h3 dst (d + 3) (Some 255)
            in h4))"

lemma write_data_height: "height (write_data h a i v b) = height (h b)"
  by (simp add: write_data_def)

lemma write_data_width: "width (write_data h a i v b) = width (h b)"
  by (simp add: write_data_def)

lemma map_pixel_height: "height (map_pixel src st dst dt x y h b) = height (h b)"
  by (simp add: map_pixel_def Let_def write_data_height)

lemma map_pixel_width: "width (map_pixel src st dst dt x y h b) = width (h b)"
  by (simp add: map_pixel_def Let_def write_data_width)

text \<open>The inner loop \<open>for (...; y < dst_image_data.height; y++)\<close>, entered at \<open>y\<close>.\<close>

function loop_y :: "nat \<Rightarrow> triangle \<Rightarrow> nat \<Rightarrow> triangle \<Rightarrow> nat \<Rightarrow> nat \<Rightarrow> heap \<Rightarrow> heap" where
  "loop_y src st dst dt x y h =
     (if y < height (h dst) then loop_y src st dst dt x (y + 1) (map_pixel src st dst dt x y h)
      else h)"
  by pat_completeness auto
termination
  by (relation "measure (\<lambda>(src, st, dst, dt, x, y, h). height (h dst) - y)")
     (auto simp: map_pixel_height)

declare loop_y.simps [simp del]

lemma loop_y_width: "width (loop_y src st dst dt x y h b) = width (h b)"
proof (induction src st dst dt x y h rule: loop_y.induct)
  case (1 src st dst dt x y h)
  then show ?case
    by (subst loop_y.simps) (simp add: map_pixel_width)
qed

text \<open>The outer loop \<open>for (...; x < dst_image_data.width; x++)\<close>, entered at \<open>x\<close>.\<close>

function loop_x :: "nat \<Rightarrow> triangle \<Rightarrow> nat \<Rightarrow> triangle \<Rightarrow> nat \<Rightarrow> heap \<Rightarrow> heap" where
  "loop_x src st dst dt x h =
     (if x < width (h dst) then loop_x src st dst dt (x + 1) (loop_y src st dst dt x 0 h)
      else h)"
  by pat_completeness auto
termination
  by (relation "measure (\<lambda>(src, st, dst, dt, x, h). width (h dst) - x)")
     (auto simp: loop_y_width)

declare loop_x.simps [simp del]

definition map_triangle :: "nat \<Rightarrow> triangle \<Rightarrow> nat \<Rightarrow> triangle \<Rightarrow> heap \<Rightarrow> heap" where
  "map_triangle src src_triangle dst dst_triangle h = loop_x src src_triangle dst dst_triangle 0 h"


section \<open>The mapping as a traversal of the destination pixels\<close>

text \<open>The destination pixels in the order in which the two loops visit them.\<close>

definition pixels :: "image_data \<Rightarrow> (nat \<times> nat) list" where
  "pixels img = List.product [0..<width img] [0..<height img]"

text \<open>The loop body applied to a list of pixels, one after the other.\<close>

definition run :: "nat \<Rightarrow> triangle \<Rightarrow> nat \<Rightarrow> triangle \<Rightarrow> (nat \<times> nat) list \<Rightarrow> heap \<Rightarrow> heap" where
  "run src st dst dt ps h = fold (\<lambda>p. map_pixel src st dst dt (fst p) (snd p)) ps h"

text \<open>
  The byte that channel \<open>k\<close> of the destination pixel \<open>(x, y)\<close> receives when the
  source image is \<open>simg\<close> and is not written during the call.
\<close>

definition pixel_colour :: "image_data \<Rightarrow> triangle \<Rightarrow> triangle \<Rightarrow> nat \<Rightarrow> nat \<Rightarrow> nat \<Rightarrow> byte" where
  "pixel_colour simg st dt x y k =
     (let uv = cartesian_to_barycentric dt (num x, num y)
      in if xy_in_triangle uv
         then to_clamped (array_get (data simg)
                (jadd (src_pixel_start (width simg) (barycentric_to_cartesian st uv)) (num k)))
         else 255)"



section \<open>Concrete images\<close>

definition no_image :: image_data where
  "no_image = \<lparr>width = 0, height = 0, data = []\<rparr>"

text \<open>
  Object 0 is a source of one pixel, object 1 a destination of two by two pixels.
\<close>

definition small_heap :: heap where
  "small_heap = (\<lambda>a. no_image)
     (0 := \<lparr>width = 1, height = 1, data = [10, 20, 30, 40]\<rparr>,
      1 := \<lparr>width = 2, height = 2,
             data = [7, 7, 7, 7, 7, 7, 7, 7, 7, 7, 7, 7, 7, 7, 7, 7]\<rparr>)"

text \<open>
  Object 0 is a source of ten by ten pixels filled with a gradient, object 1 a
  destination of the same size.
\<close>

definition gradient :: "byte list" where
  "gradient = map of_nat [0..<400]"

definition identity_heap :: heap where
  "identity_heap = (\<lambda>a. no_image)
     (0 := \<lparr>width = 10, height = 10, data = gradient\<rparr>,
      1 := \<lparr>width = 10, height = 10, data = replicate 400 0\<rparr>)"


section \<open>The clamping rule of the specification\<close>



section \<open>Rounding to binary64\<close>

text \<open>
  \<open>binary64 q\<close> is the IEEE 754 double nearest to the rational \<open>q\<close>, ties to the even
  significand: 53 significant bits, least exponent \<open>-1022\<close> with gradual underflow
  below it, and an infinity when the rounded magnitude reaches \<open>2 ^ 1024\<close>.
  \<open>exponent a\<close> is the \<open>e\<close> with \<open>2 ^ e \<le> a < 2 ^ (e + 1)\<close>, found by halving or doubling.
\<close>

definition pow2 :: "int \<Rightarrow> rat" where
  "pow2 e = (if 0 \<le> e then 2 ^ nat e else 1 / 2 ^ nat (- e))"

function exponent_up :: "rat \<Rightarrow> int \<Rightarrow> int" where
  "exponent_up a e = (if 2 \<le> a then exponent_up (a / 2) (e + 1) else e)"
  by pat_completeness auto
termination
proof (relation "measure (\<lambda>(a, e). nat \<lfloor>a\<rfloor>)")
  show "wf (measure (\<lambda>(a, e). nat \<lfloor>a\<rfloor>))" by simp
  fix a :: rat and e :: int
  assume a: "2 \<le> a"
  have "a / 2 + 1 \<le> a" using a by simp
  then have "\<lfloor>a / 2 + 1\<rfloor> \<le> \<lfloor>a\<rfloor>" by (rule floor_mono)
  then have "\<lfloor>a / 2\<rfloor> < \<lfloor>a\<rfloor>" by simp
  moreover have "0 < \<lfloor>a\<rfloor>" using a by simp
  ultimately show "((a / 2, e + 1), (a, e)) \<in> measure (\<lambda>(a, e). nat \<lfloor>a\<rfloor>)"
    by simp
qed

lemma ceiling_half_less:
  fixes x :: rat
  assumes "1 < x"
  shows "\<lceil>x / 2\<rceil> < \<lceil>x\<rceil>"
proof -
  have two: "2 \<le> \<lceil>x\<rceil>" using assms by (simp add: le_ceiling_iff)
  have "x / 2 \<le> of_int \<lceil>x\<rceil> / 2" by (simp add: le_of_int_ceiling)
  also have "\<dots> \<le> of_int (\<lceil>x\<rceil> - 1)"
    using two by (simp add: field_simps)
  finally have "\<lceil>x / 2\<rceil> \<le> \<lceil>x\<rceil> - 1" by (simp only: ceiling_le_iff)
  then show ?thesis by simp
qed

function exponent_down :: "rat \<Rightarrow> int \<Rightarrow> int" where
  "exponent_down a e = (if 0 < a \<and> a < 1 then exponent_down (2 * a) (e - 1) else e)"
  by pat_completeness auto
termination
proof (relation "measure (\<lambda>(a, e). nat \<lceil>1 / a\<rceil>)")
  show "wf (measure (\<lambda>(a, e). nat \<lceil>1 / a\<rceil>))" by simp
  fix a :: rat and e :: int
  assume a: "0 < a \<and> a < 1"
  then have b: "1 < 1 / a" by simp
  have h: "1 / (2 * a) = (1 / a) / 2" by simp
  have "\<lceil>1 / (2 * a)\<rceil> < \<lceil>1 / a\<rceil>"
    unfolding h using b by (rule ceiling_half_less)
  moreover have "0 < \<lceil>1 / a\<rceil>" using a by (simp add: less_ceiling_iff)
  ultimately have "nat \<lceil>1 / (2 * a)\<rceil> < nat \<lceil>1 / a\<rceil>" by linarith
  then show "((2 * a, e - 1), (a, e)) \<in> measure (\<lambda>(a, e). nat \<lceil>1 / a\<rceil>)"
    by (simp only: in_measure prod.case)
qed

declare exponent_up.simps [simp del] exponent_down.simps [simp del]

definition exponent :: "rat \<Rightarrow> int" where
  "exponent a = (if 1 \<le> a then exponent_up a 0 else exponent_down a 0)"

definition round_half_even :: "rat \<Rightarrow> int" where
  "round_half_even x =
     (let f = \<lfloor>x\<rfloor>; d = x - of_int f
      in if d < 1 / 2 then f else if 1 / 2 < d then f + 1 else if even f then f else f + 1)"

definition binary64 :: "rat \<Rightarrow> jsnum" where
  "binary64 q =
     (if q = 0 then Fin 0
      else let a = \<bar>q\<bar>;
               ulp = pow2 (max (exponent a) (- 1022) - 52);
               r = of_int (round_half_even (a / ulp)) * ulp
           in if pow2 1024 \<le> r then (if 0 < q then PInf else NInf)
              else Fin (if 0 < q then r else - r))"


section \<open>The coordinate transform under a rounding function\<close>

text \<open>
  The arithmetic of the source with every finite result passed through a rounding
  function \<open>rnd\<close>: with \<open>binary64\<close> it is the arithmetic of the running code, with
  \<open>Fin\<close> (no rounding) it is \<open>jadd\<close>, \<open>jsub\<close>, \<open>jmul\<close> and \<open>jdiv\<close>. The special
  values behave as before.
\<close>

fun plus_with :: "(rat \<Rightarrow> jsnum) \<Rightarrow> jsnum \<Rightarrow> jsnum \<Rightarrow> jsnum" where
  "plus_with rnd (Fin a) (Fin b) = rnd (a + b)"
| "plus_with rnd x y = jadd x y"

fun minus_with :: "(rat \<Rightarrow> jsnum) \<Rightarrow> jsnum \<Rightarrow> jsnum \<Rightarrow> jsnum" where
  "minus_with rnd (Fin a) (Fin b) = rnd (a - b)"
| "minus_with rnd x y = jsub x y"

fun times_with :: "(rat \<Rightarrow> jsnum) \<Rightarrow> jsnum \<Rightarrow> jsnum \<Rightarrow> jsnum" where
  "times_with rnd (Fin a) (Fin b) = rnd (a * b)"
| "times_with rnd x y = jmul x y"

fun divide_with :: "(rat \<Rightarrow> jsnum) \<Rightarrow> jsnum \<Rightarrow> jsnum \<Rightarrow> jsnum" where
  "divide_with rnd (Fin a) (Fin b) = (if b = 0 then signed_inf a else rnd (a / b))"
| "divide_with rnd x y = jdiv x y"

text \<open>The vector functions and the two coordinate transforms of the source over it.\<close>

fun add_with :: "(rat \<Rightarrow> jsnum) \<Rightarrow> vec \<Rightarrow> vec \<Rightarrow> vec" where
  "add_with rnd (v00, v01) (v10, v11) = (plus_with rnd v00 v10, plus_with rnd v01 v11)"

fun sub_with :: "(rat \<Rightarrow> jsnum) \<Rightarrow> vec \<Rightarrow> vec \<Rightarrow> vec" where
  "sub_with rnd (v00, v01) (v10, v11) = (minus_with rnd v00 v10, minus_with rnd v01 v11)"

fun dot_with :: "(rat \<Rightarrow> jsnum) \<Rightarrow> vec \<Rightarrow> vec \<Rightarrow> jsnum" where
  "dot_with rnd (v00, v01) (v10, v11) =
     plus_with rnd (times_with rnd v00 v10) (times_with rnd v01 v11)"

fun mul_with :: "(rat \<Rightarrow> jsnum) \<Rightarrow> jsnum \<Rightarrow> vec \<Rightarrow> vec" where
  "mul_with rnd k (v0, v1) = (times_with rnd k v0, times_with rnd k v1)"

text \<open>The denominator \<open>dot00 * dot11 - dot01 * dot01\<close> as the source computes it.\<close>

fun denominator_with :: "(rat \<Rightarrow> jsnum) \<Rightarrow> triangle \<Rightarrow> jsnum" where
  "denominator_with rnd (a, b, c) =
     (let v0 = sub_with rnd c a;
          v1 = sub_with rnd b a;
          dot00 = dot_with rnd v0 v0;
          dot01 = dot_with rnd v0 v1;
          dot11 = dot_with rnd v1 v1
      in minus_with rnd (times_with rnd dot00 dot11) (times_with rnd dot01 dot01))"

fun cartesian_to_barycentric_with :: "(rat \<Rightarrow> jsnum) \<Rightarrow> triangle \<Rightarrow> vec \<Rightarrow> vec" where
  "cartesian_to_barycentric_with rnd (a, b, c) xy =
     (let v0 = sub_with rnd c a;
          v1 = sub_with rnd b a;
          v2 = sub_with rnd xy a;
          dot00 = dot_with rnd v0 v0;
          dot01 = dot_with rnd v0 v1;
          dot02 = dot_with rnd v0 v2;
          dot11 = dot_with rnd v1 v1;
          dot12 = dot_with rnd v1 v2;
          invDenom = divide_with rnd (Fin 1)
                       (minus_with rnd (times_with rnd dot00 dot11) (times_with rnd dot01 dot01));
          u = times_with rnd (minus_with rnd (times_with rnd dot11 dot02) (times_with rnd dot01 dot12)) invDenom;
          v = times_with rnd (minus_with rnd (times_with rnd dot00 dot12) (times_with rnd dot01 dot02)) invDenom
      in (u, v))"

fun barycentric_to_cartesian_with :: "(rat \<Rightarrow> jsnum) \<Rightarrow> triangle \<Rightarrow> vec \<Rightarrow> vec" where
  "barycentric_to_cartesian_with rnd (a, b, c) (u, v) =
     (let ba = sub_with rnd b a;
          ca = sub_with rnd c a
      in add_with rnd a (add_with rnd (mul_with rnd u ca) (mul_with rnd v ba)))"

fun is_finite :: "jsnum \<Rightarrow> bool" where
  "is_finite (Fin q) = True"
| "is_finite x = False"


section \<open>Arrays as the source receives them\<close>

text \<open>
  The source is untyped: a triangle is whatever array is passed. Here a triangle is an
  array of any length of arrays of numbers of any length. \<open>triangle[i]\<close> beyond the
  end is \<open>undefined\<close> (\<open>None\<close>), and reading an element of \<open>undefined\<close> throws a
  \<open>TypeError\<close>; an element \<open>v[i]\<close> beyond the end of a vector is \<open>undefined\<close>, which
  arithmetic converts to \<open>NaN\<close>.
\<close>

datatype js_error = TypeError

definition element :: "jsnum list \<Rightarrow> nat \<Rightarrow> jsnum" where
  "element v i = (if i < length v then v ! i else NaN)"

definition item :: "jsnum list list \<Rightarrow> nat \<Rightarrow> jsnum list option" where
  "item t i = (if i < length t then Some (t ! i) else None)"

fun add_js :: "(rat \<Rightarrow> jsnum) \<Rightarrow> jsnum list option \<Rightarrow> jsnum list option \<Rightarrow> js_error + jsnum list" where
  "add_js rnd (Some v0) (Some v1) =
     Inr [plus_with rnd (element v0 0) (element v1 0), plus_with rnd (element v0 1) (element v1 1)]"
| "add_js rnd v0 v1 = Inl TypeError"

fun sub_js :: "(rat \<Rightarrow> jsnum) \<Rightarrow> jsnum list option \<Rightarrow> jsnum list option \<Rightarrow> js_error + jsnum list" where
  "sub_js rnd (Some v0) (Some v1) =
     Inr [minus_with rnd (element v0 0) (element v1 0), minus_with rnd (element v0 1) (element v1 1)]"
| "sub_js rnd v0 v1 = Inl TypeError"

fun mul_js :: "(rat \<Rightarrow> jsnum) \<Rightarrow> jsnum \<Rightarrow> jsnum list option \<Rightarrow> js_error + jsnum list" where
  "mul_js rnd k (Some v) = Inr [times_with rnd k (element v 0), times_with rnd k (element v 1)]"
| "mul_js rnd k None = Inl TypeError"

definition barycentric_to_cartesian_js ::
    "(rat \<Rightarrow> jsnum) \<Rightarrow> jsnum list list \<Rightarrow> jsnum list \<Rightarrow> js_error + jsnum list" where
  "barycentric_to_cartesian_js rnd triangle uv =
     (let a = item triangle 0
      in case sub_js rnd (item triangle 1) a of Inl e \<Rightarrow> Inl e | Inr ba \<Rightarrow>
         (case sub_js rnd (item triangle 2) a of Inl e \<Rightarrow> Inl e | Inr ca \<Rightarrow>
          (case mul_js rnd (element uv 0) (Some ca) of Inl e \<Rightarrow> Inl e | Inr m0 \<Rightarrow>
           (case mul_js rnd (element uv 1) (Some ba) of Inl e \<Rightarrow> Inl e | Inr m1 \<Rightarrow>
            (case add_js rnd (Some m0) (Some m1) of Inl e \<Rightarrow> Inl e | Inr s \<Rightarrow>
               add_js rnd a (Some s))))))"


section \<open>The call as the running code performs it\<close>

text \<open>
  The call with its arithmetic rounded by \<open>rnd\<close>, on the state that it can reach: the
  image data objects, the triangle arrays (by identity), and the two global variables
  \<open>src_xy\<close> and \<open>src_pixel_start\<close>, which \<open>map_triangle\<close> assigns without declaring
  them (\<open>None\<close> while unassigned).
\<close>

record js_state =
  images :: heap
  triangles :: "nat \<Rightarrow> triangle"
  global_src_xy :: "vec option"
  global_src_pixel_start :: "jsnum option"

text \<open>The test \<open>uv[0] >= 0 && uv[1] >= 0 && uv[0] + uv[1] <= 1\<close>, its sum rounded.\<close>

definition xy_in_triangle_with :: "(rat \<Rightarrow> jsnum) \<Rightarrow> vec \<Rightarrow> bool" where
  "xy_in_triangle_with rnd uv =
     (jge (fst uv) (Fin 0) \<and> jge (snd uv) (Fin 0) \<and> jle (plus_with rnd (fst uv) (snd uv)) (Fin 1))"

text \<open>
  \<open>PIXEL_WIDTH * (Math.floor(src_xy[0]) + Math.floor(src_xy[1]) * src_image_data.width)\<close>,
  each operation rounded (the floor of a binary64 number is a binary64 number).
\<close>

definition src_pixel_start_with :: "(rat \<Rightarrow> jsnum) \<Rightarrow> nat \<Rightarrow> vec \<Rightarrow> jsnum" where
  "src_pixel_start_with rnd src_width src_xy =
     times_with rnd (num PIXEL_WIDTH)
       (plus_with rnd (jfloor (fst src_xy)) (times_with rnd (jfloor (snd src_xy)) (num src_width)))"

text \<open>
  The index \<open>src_pixel_start\<close>, \<open>src_pixel_start+1\<close>, \<open>src_pixel_start+2\<close> or
  \<open>src_pixel_start+3\<close> read for channel \<open>k\<close>.
\<close>

definition sample_offset :: "(rat \<Rightarrow> jsnum) \<Rightarrow> jsnum \<Rightarrow> nat \<Rightarrow> jsnum" where
  "sample_offset rnd p k = (if k = 0 then p else plus_with rnd p (num k))"

text \<open>
  The body of the inner loop for the destination pixel \<open>(x, y)\<close>. The triangles are
  passed by identity and read from the state; the copying branch assigns the two
  global variables before it reads the source.
\<close>

definition map_pixel_js ::
    "(rat \<Rightarrow> jsnum) \<Rightarrow> nat \<Rightarrow> nat \<Rightarrow> nat \<Rightarrow> nat \<Rightarrow> nat \<Rightarrow> nat \<Rightarrow> js_state \<Rightarrow> js_state" where
  "map_pixel_js rnd src src_triangle dst dst_triangle x y s =
     (let uv = cartesian_to_barycentric_with rnd (triangles s dst_triangle) (num x, num y);
          d = dst_pixel_start (width (images s dst)) x y
      in if xy_in_triangle_with rnd uv then
           (let src_xy = barycentric_to_cartesian_with rnd (triangles s src_triangle) uv;
                s1 = s\<lparr>global_src_xy := Some src_xy\<rparr>;
                p = src_pixel_start_with rnd (width (images s1 src)) src_xy;
                s2 = s1\<lparr>global_src_pixel_start := Some p\<rparr>;
                s3 = s2\<lparr>images := write_data (images s2) dst d (read_data (images s2) src p)\<rparr>;
                s4 = s3\<lparr>images := write_data (images s3) dst (d + 1)
                                      (read_data (images s3) src (plus_with rnd p (Fin 1)))\<rparr>;
                s5 = s4\<lparr>images := write_data (images s4) dst (d + 2)
                                      (read_data (images s4) src (plus_with rnd p (Fin 2)))\<rparr>;
                s6 = s5\<lparr>images := write_data (images s5) dst (d + 3)
                                      (read_data (images s5) src (plus_with rnd p (Fin 3)))\<rparr>
            in s6)
         else
           (let s1 = s\<lparr>images := write_data (images s) dst d (Some 255)\<rparr>;
                s2 = s1\<lparr>images := write_data (images s1) dst (d + 1) (Some 255)\<rparr>;
                s3 = s2\<lparr>images := write_data (images s2) dst (d + 2) (Some 255)\<rparr>;
                s4 = s3\<lparr>images := write_data (images s3) dst (d + 3) (Some 255)\<rparr>
            in s4))"

lemma map_pixel_js_height:
  "height (images (map_pixel_js rnd src sa dst da x y s) b) = height (images s b)"
  by (simp add: map_pixel_js_def Let_def write_data_height)

lemma map_pixel_js_width:
  "width (images (map_pixel_js rnd src sa dst da x y s) b) = width (images s b)"
  by (simp add: map_pixel_js_def Let_def write_data_width)

text \<open>The two loops, entered at \<open>y\<close> and at \<open>x\<close>.\<close>

function loop_y_js ::
    "(rat \<Rightarrow> jsnum) \<Rightarrow> nat \<Rightarrow> nat \<Rightarrow> nat \<Rightarrow> nat \<Rightarrow> nat \<Rightarrow> nat \<Rightarrow> js_state \<Rightarrow> js_state" where
  "loop_y_js rnd src sa dst da x y s =
     (if y < height (images s dst)
      then loop_y_js rnd src sa dst da x (y + 1) (map_pixel_js rnd src sa dst da x y s)
      else s)"
  by pat_completeness auto
termination
  by (relation "measure (\<lambda>(rnd, src, sa, dst, da, x, y, s). height (images s dst) - y)")
     (auto simp: map_pixel_js_height)

declare loop_y_js.simps [simp del]

lemma loop_y_js_width:
  "width (images (loop_y_js rnd src sa dst da x y s) b) = width (images s b)"
proof (induction rnd src sa dst da x y s rule: loop_y_js.induct)
  case (1 rnd src sa dst da x y s)
  then show ?case
    by (subst loop_y_js.simps) (simp add: map_pixel_js_width)
qed

function loop_x_js ::
    "(rat \<Rightarrow> jsnum) \<Rightarrow> nat \<Rightarrow> nat \<Rightarrow> nat \<Rightarrow> nat \<Rightarrow> nat \<Rightarrow> js_state \<Rightarrow> js_state" where
  "loop_x_js rnd src sa dst da x s =
     (if x < width (images s dst)
      then loop_x_js rnd src sa dst da (x + 1) (loop_y_js rnd src sa dst da x 0 s)
      else s)"
  by pat_completeness auto
termination
  by (relation "measure (\<lambda>(rnd, src, sa, dst, da, x, s). width (images s dst) - x)")
     (auto simp: loop_y_js_width)

declare loop_x_js.simps [simp del]

definition map_triangle_js ::
    "(rat \<Rightarrow> jsnum) \<Rightarrow> nat \<Rightarrow> nat \<Rightarrow> nat \<Rightarrow> nat \<Rightarrow> js_state \<Rightarrow> js_state" where
  "map_triangle_js rnd src src_triangle dst dst_triangle s =
     loop_x_js rnd src src_triangle dst dst_triangle 0 s"

text \<open>The loop body applied to a list of pixels, one after the other.\<close>

definition run_js ::
    "(rat \<Rightarrow> jsnum) \<Rightarrow> nat \<Rightarrow> nat \<Rightarrow> nat \<Rightarrow> nat \<Rightarrow> (nat \<times> nat) list \<Rightarrow> js_state \<Rightarrow> js_state" where
  "run_js rnd src sa dst da ps s = fold (\<lambda>p. map_pixel_js rnd src sa dst da (fst p) (snd p)) ps s"

text \<open>
  The byte that channel \<open>k\<close> of the destination pixel \<open>(x, y)\<close> receives when the
  source image is \<open>simg\<close> and is not written during the call.
\<close>

definition pixel_colour_with ::
    "(rat \<Rightarrow> jsnum) \<Rightarrow> image_data \<Rightarrow> triangle \<Rightarrow> triangle \<Rightarrow> nat \<Rightarrow> nat \<Rightarrow> nat \<Rightarrow> byte" where
  "pixel_colour_with rnd simg st dt x y k =
     (let uv = cartesian_to_barycentric_with rnd dt (num x, num y)
      in if xy_in_triangle_with rnd uv
         then to_clamped (array_get (data simg)
                (sample_offset rnd
                   (src_pixel_start_with rnd (width simg) (barycentric_to_cartesian_with rnd st uv)) k))
         else 255)"

text \<open>
  A state with the two small images, a source triangle (address 0), a destination
  triangle (address 1) and a triangle of three collinear corners (address 2).
\<close>

definition small_state :: js_state where
  "small_state =
     \<lparr>images = small_heap,
      triangles = (\<lambda>a. tri (0, 0) (0, 0) (0, 0))
        (0 := tri (0, 0) (0, 5) (5, 5), 1 := tri (0, 0) (0, 1) (1, 1),
         2 := tri (0, 0) (5, 5) (10, 10)),
      global_src_xy = None,
      global_src_pixel_start = None\<rparr>"


section \<open>Properties of the coordinate transform\<close>

lemma denom_area2: "denom A B C = (area2 A B C)\<^sup>2"
  by (cases A; cases B; cases C) (simp add: power2_eq_square algebra_simps)

lemma c2b_finite:
  assumes "area2 (ax, ay) (bx, by) (cx, cy) \<noteq> 0"
  shows "cartesian_to_barycentric (tri (ax, ay) (bx, by) (cx, cy)) (Fin px, Fin py) =
    (Fin (((px - ax) * (by - ay) - (py - ay) * (bx - ax)) / area2 (ax, ay) (bx, by) (cx, cy)),
     Fin (((cx - ax) * (py - ay) - (cy - ay) * (px - ax)) / area2 (ax, ay) (bx, by) (cx, cy)))"
proof -
  define p q r s m n where "p = cx - ax" and "q = cy - ay" and "r = bx - ax" and "s = by - ay"
    and "m = px - ax" and "n = py - ay"
  have a: "p * s - q * r \<noteq> 0" using assms by (simp add: p_def q_def r_def s_def)
  have d: "(p * p + q * q) * (r * r + s * s) - (p * r + q * s) * (p * r + q * s) = (p * s - q * r) * (p * s - q * r)"
    by (simp add: algebra_simps)
  have u: "(r * r + s * s) * (p * m + q * n) - (p * r + q * s) * (r * m + s * n) = (m * s - n * r) * (p * s - q * r)"
    by (simp add: algebra_simps)
  have v: "(p * p + q * q) * (r * m + s * n) - (p * r + q * s) * (p * m + q * n) = (p * n - q * m) * (p * s - q * r)"
    by (simp add: algebra_simps)
  show ?thesis
    using a
    by (simp add: tri_def Let_def d u v flip: p_def q_def r_def s_def m_def n_def)
qed

lemma b2c_finite: "barycentric_to_cartesian (tri (ax, ay) (bx, by) (cx, cy)) (Fin u, Fin v) =
     (Fin (ax + (u * (cx - ax) + v * (bx - ax))), Fin (ay + (u * (cy - ay) + v * (by - ay))))"
  by (simp add: tri_def)

lemma solve_back:
  fixes p q r s m n :: rat
  assumes "p * s - q * r \<noteq> 0"
  shows "(m * s - n * r) / (p * s - q * r) * p + (p * n - q * m) / (p * s - q * r) * r = m"
    and "(m * s - n * r) / (p * s - q * r) * q + (p * n - q * m) / (p * s - q * r) * s = n"
proof -
  let ?D = "p * s - q * r"
  have "(m * s - n * r) / ?D * p + (p * n - q * m) / ?D * r = (m * ?D) / ?D"
    by (simp add: algebra_simps add_divide_distrib diff_divide_distrib)
  then show "(m * s - n * r) / ?D * p + (p * n - q * m) / ?D * r = m"
    using assms by simp
  have "(m * s - n * r) / ?D * q + (p * n - q * m) / ?D * s = (n * ?D) / ?D"
    by (simp add: algebra_simps add_divide_distrib diff_divide_distrib)
  then show "(m * s - n * r) / ?D * q + (p * n - q * m) / ?D * s = n"
    using assms by simp
qed

text \<open>
  Claim C1, amended. In exact rational arithmetic, for a non-degenerate triangle and any
  point, converting the point to barycentric coordinates and back yields the point
  again, exactly.
\<close>

theorem round_trip:
  "\<not> degenerate A B C \<Longrightarrow>
   barycentric_to_cartesian (tri A B C) (cartesian_to_barycentric (tri A B C) (pt P)) = pt P"
proof -
  assume nd: "\<not> degenerate A B C"
  obtain ax ay bx "by" cx cy px py
    where A: "A = (ax, ay)" and B: "B = (bx, by)" and C: "C = (cx, cy)" and P: "P = (px, py)"
    by (cases A, cases B, cases C, cases P) blast
  have a: "area2 (ax, ay) (bx, by) (cx, cy) \<noteq> 0"
    using nd by (simp add: degenerate_def A B C)
  then have a': "(cx - ax) * (by - ay) - (cy - ay) * (bx - ax) \<noteq> 0"
    by simp
  show ?thesis
    unfolding A B C P pt.simps c2b_finite [OF a] b2c_finite
    using solve_back [OF a', of "px - ax" "py - ay"]
    by simp
qed

theorem round_trip_witness:
  "\<not> degenerate (0, 0) (0, 10) (10, 10) \<and>
   barycentric_to_cartesian (tri (0, 0) (0, 10) (10, 10))
     (cartesian_to_barycentric (tri (0, 0) (0, 10) (10, 10)) (pt (3, 7/2))) = pt (3, 7/2)"
  using round_trip [of "(0, 0)" "(0, 10)" "(10, 10)" "(3, 7/2)"]
  by (simp add: degenerate_def)


section \<open>The transform in binary64\<close>

text \<open>
  \<open>binary64_eval\<close> computes a rounding once the exponent is given; integers below
  \<open>2 ^ 53\<close> are not rounded. Without rounding (\<open>rnd = Fin\<close>) the rounded functions are
  the exact ones.
\<close>

lemma floor_rat_numeral: "\<lfloor>numeral a / numeral b :: rat\<rfloor> = numeral a div numeral b"
  by (metis floor_divide_of_int_eq of_int_numeral)

lemma exponent_up_eq:
  "2 ^ k \<le> a \<Longrightarrow> a < 2 ^ (k + 1) \<Longrightarrow> exponent_up a e = e + int k"
proof (induction k arbitrary: a e)
  case 0
  then show ?case by (subst exponent_up.simps) simp
next
  case (Suc k)
  have "(2::rat) * 1 \<le> 2 * 2 ^ k" by (intro mult_left_mono) simp_all
  with Suc.prems(1) have "2 \<le> a" unfolding power_Suc by linarith
  moreover have "exponent_up (a / 2) (e + 1) = e + 1 + int k"
    using Suc.prems by (intro Suc.IH) simp_all
  ultimately show ?case by (subst exponent_up.simps) simp
qed

lemma exponent_down_eq:
  "0 < a \<Longrightarrow> 1 \<le> a * 2 ^ k \<Longrightarrow> a * 2 ^ k < 2 \<Longrightarrow> exponent_down a e = e - int k"
proof (induction k arbitrary: a e)
  case 0
  then show ?case by (subst exponent_down.simps) simp
next
  case (Suc k)
  have "(1::rat) \<le> 2 ^ k" by simp
  then have "a * 1 \<le> a * 2 ^ k" using Suc.prems(1) by (intro mult_left_mono) simp_all
  then have "a < 1" using Suc.prems(3) by simp
  moreover have "exponent_down (2 * a) (e - 1) = e - 1 - int k"
    using Suc.prems by (intro Suc.IH) (simp_all add: mult.assoc mult.left_commute)
  ultimately show ?case using Suc.prems(1) by (subst exponent_down.simps) simp
qed

lemma exponent_eq:
  assumes "pow2 e \<le> a" and "a < pow2 (e + 1)"
  shows "exponent a = e"
proof (cases "0 \<le> e")
  case True
  then have "2 ^ nat e \<le> a" "a < 2 ^ (nat e + 1)"
    using assms by (simp_all add: pow2_def nat_add_distrib)
  then have "exponent_up a 0 = 0 + int (nat e)" by (rule exponent_up_eq)
  moreover have "(1::rat) \<le> 2 ^ nat e" by simp
  then have "1 \<le> a" using \<open>2 ^ nat e \<le> a\<close> by linarith
  ultimately show ?thesis using True by (simp add: exponent_def)
next
  case False
  define k where "k = nat (- e)"
  have k: "0 < k" "e = - int k" using False by (simp_all add: k_def)
  have lo: "1 / 2 ^ k \<le> a" using assms(1) False by (simp add: pow2_def k_def)
  have hi: "a < 2 / 2 ^ k"
  proof (cases "e = - 1")
    case True
    then show ?thesis using assms(2) k by (simp add: pow2_def)
  next
    case False
    then have "nat (- (e + 1)) = k - 1" "\<not> 0 \<le> e + 1" using k by simp_all
    then have "a < 1 / 2 ^ (k - 1)" using assms(2) by (simp add: pow2_def)
    moreover have "(2::rat) ^ k = 2 * 2 ^ (k - 1)" using k(1) by (cases k) simp_all
    ultimately show ?thesis by simp
  qed
  have "(0::rat) < 1 / 2 ^ k" by simp
  then have pos: "0 < a" using lo by linarith
  have "1 \<le> a * 2 ^ k" using lo by (simp add: field_simps)
  moreover have "a * 2 ^ k < 2" using hi by (simp add: field_simps)
  ultimately have "exponent_down a 0 = 0 - int k" using pos by (intro exponent_down_eq)
  moreover have "a < 1"
  proof -
    have "(2::rat) \<le> 2 ^ k" using k(1) by (cases k) simp_all
    then have "2 / 2 ^ k \<le> (1::rat)" by (simp add: field_simps)
    then show ?thesis using hi by linarith
  qed
  ultimately show ?thesis using k by (simp add: exponent_def)
qed

lemma binary64_eval:
  assumes "q \<noteq> 0" and "pow2 e \<le> \<bar>q\<bar>" and "\<bar>q\<bar> < pow2 (e + 1)"
  shows "binary64 q =
     (let ulp = pow2 (max e (- 1022) - 52);
          r = of_int (round_half_even (\<bar>q\<bar> / ulp)) * ulp
      in if pow2 1024 \<le> r then (if 0 < q then PInf else NInf)
         else Fin (if 0 < q then r else - r))"
  unfolding binary64_def Let_def exponent_eq [OF assms(2,3)] using assms(1) by simp


lemma round_half_even_of_int: "round_half_even (of_int m) = m"
  by (simp add: round_half_even_def)

lemma binary64_int:
  assumes "\<bar>n\<bar> < 2 ^ 53"
  shows "binary64 (of_int n) = Fin (of_int n)"
proof (cases "n = 0")
  case True
  then show ?thesis by (simp add: binary64_def)
next
  case False
  then have "1 \<le> nat \<bar>n\<bar>" by simp
  with ex_power_ivl1 [of 2 "nat \<bar>n\<bar>"] obtain k
    where k: "2 ^ k \<le> nat \<bar>n\<bar>" "nat \<bar>n\<bar> < 2 ^ (k + 1)" by auto
  have lo: "(2::int) ^ k \<le> \<bar>n\<bar>" using k(1) by (simp add: le_nat_iff)
  have hi: "\<bar>n\<bar> < (2::int) ^ (k + 1)" using k(2) by (simp add: nat_less_iff)
  have "(2::int) ^ k < 2 ^ 53" using lo assms by linarith
  from power_less_imp_less_exp [OF _ this] have k52: "k \<le> 52" by simp
  define j where "j = 52 - k"
  have kj: "k + j = 52" using k52 by (simp add: j_def)
  have a: "\<bar>(of_int n :: rat)\<bar> = of_int \<bar>n\<bar>" by simp
  have "(of_int (2 ^ k) :: rat) \<le> of_int \<bar>n\<bar>" using lo by (simp only: of_int_le_iff)
  then have lo': "pow2 (int k) \<le> \<bar>(of_int n :: rat)\<bar>" by (simp add: pow2_def)
  have "(of_int \<bar>n\<bar> :: rat) < of_int (2 ^ (k + 1))" using hi by (simp only: of_int_less_iff)
  then have hi': "\<bar>(of_int n :: rat)\<bar> < pow2 (int k + 1)"
    by (simp add: pow2_def nat_add_distrib)
  have ulp: "pow2 (max (int k) (- 1022) - 52) = 1 / 2 ^ j"
  proof (cases "j = 0")
    case True
    then have "k = 52" using kj by simp
    then show ?thesis using True by (simp add: pow2_def)
  next
    case False
    then have "\<not> 0 \<le> int k - 52" "nat (52 - int k) = j" using kj by (simp_all add: j_def)
    then show ?thesis by (simp add: pow2_def)
  qed
  have r: "of_int (round_half_even (\<bar>of_int n\<bar> / (1 / 2 ^ j))) * (1 / 2 ^ j) = (of_int \<bar>n\<bar> :: rat)"
  proof -
    have "\<bar>(of_int n :: rat)\<bar> / (1 / 2 ^ j) = of_int (\<bar>n\<bar> * 2 ^ j)" by simp
    then show ?thesis by (simp only: round_half_even_of_int) simp
  qed
  have "(of_int \<bar>n\<bar> :: rat) < of_int (2 ^ 53)" using assms by (simp only: of_int_less_iff)
  moreover have "(2::rat) ^ 53 \<le> 2 ^ 1024" by (rule power_increasing) simp_all
  ultimately have small: "\<not> pow2 1024 \<le> (of_int \<bar>n\<bar> :: rat)" by (simp add: pow2_def)
  have "of_int n \<noteq> (0::rat)" using False by simp
  from binary64_eval [OF this lo' hi'] show ?thesis
    unfolding Let_def ulp r using small by (auto simp add: abs_if)
qed

lemma binary64_numeral [simp]:
  "numeral k < (2::int) ^ 53 \<Longrightarrow> binary64 (numeral k) = Fin (numeral k)"
  "numeral k < (2::int) ^ 53 \<Longrightarrow> binary64 (- numeral k) = Fin (- numeral k)"
  "binary64 0 = Fin 0"
  "binary64 1 = Fin 1"
  using binary64_int [of "numeral k"] binary64_int [of "- numeral k"] binary64_int [of 1]
  by (simp_all add: binary64_def)

lemma exact_ops:
  "plus_with Fin x y = jadd x y" "minus_with Fin x y = jsub x y"
  "times_with Fin x y = jmul x y" "divide_with Fin x y = jdiv x y"
  by (cases x; cases y; simp)+

lemma exact_vec:
  "add_with Fin v w = add v w" "sub_with Fin v w = sub v w"
  "dot_with Fin v w = dot v w" "mul_with Fin k v = mul k v"
  by (cases v; cases w; simp add: exact_ops)+

lemma exact_c2b: "cartesian_to_barycentric_with Fin t xy = cartesian_to_barycentric t xy"
  by (cases t) (simp add: exact_ops exact_vec)

lemma exact_b2c: "barycentric_to_cartesian_with Fin t uv = barycentric_to_cartesian t uv"
  by (cases t; cases uv) (simp add: exact_ops exact_vec)

lemma r_big1: "binary64 (134235397 * 134212226) = Fin 18016031439363720"
  using binary64_eval [of "134235397 * 134212226" "54"]
  by (simp add: pow2_def round_half_even_def Let_def floor_rat_numeral)

lemma r_big2: "binary64 (134223811 * 134223811) = Fin 18016031439363720"
  using binary64_eval [of "134223811 * 134223811" "54"]
  by (simp add: pow2_def round_half_even_def Let_def floor_rat_numeral)

text \<open>
  Claim C1 as stated fails for the running code: in binary64 the two products of the
  denominator of the non-degenerate triangle \<open>(0,0), (11585,1), (11586,1)\<close> round to the
  same number, the denominator is 0, and the round trip of \<open>(5, 3)\<close> yields \<open>NaN\<close> in
  both coordinates, within no tolerance of the point.
\<close>

theorem round_trip_fails_in_binary64:
  "\<not> degenerate (0, 0) (11585, 1) (11586, 1)
   \<and> barycentric_to_cartesian_with binary64 (tri (0, 0) (11585, 1) (11586, 1))
        (cartesian_to_barycentric_with binary64 (tri (0, 0) (11585, 1) (11586, 1)) (pt (5, 3)))
      = (NaN, NaN)"
  using r_big1 r_big2
  by (simp add: degenerate_def tri_def Let_def signed_inf_def)


lemma plus_with_Fin: "plus_with rnd x y = Fin q \<Longrightarrow> \<exists>a b. x = Fin a \<and> y = Fin b"
  by (cases x; cases y; simp)

lemma minus_with_Fin: "minus_with rnd x y = Fin q \<Longrightarrow> \<exists>a b. x = Fin a \<and> y = Fin b"
  by (cases x; cases y; simp)

lemma times_with_Fin: "times_with rnd x y = Fin q \<Longrightarrow> \<exists>a b. x = Fin a \<and> y = Fin b"
  by (cases x; cases y; simp add: signed_inf_def split: if_splits)

lemma times_with_commute: "times_with rnd x y = times_with rnd y x"
  by (cases x; cases y; simp add: mult.commute)

lemma dot_with_commute: "dot_with rnd v w = dot_with rnd w v"
  by (cases v; cases w) (simp add: times_with_commute)

lemma times_with_zero:
  assumes "rnd 0 = Fin 0" and "times_with rnd x (Fin 0) = Fin q"
  shows "q = 0"
proof -
  from times_with_Fin [OF assms(2)] obtain a where "x = Fin a" by blast
  then show ?thesis using assms by simp
qed

lemma dot_with_zero:
  assumes "rnd 0 = Fin 0" and "dot_with rnd v (Fin 0, Fin 0) = Fin q"
  shows "q = 0"
proof -
  obtain x y where v: "v = (x, y)" by (cases v)
  from assms(2) have p: "plus_with rnd (times_with rnd x (Fin 0)) (times_with rnd y (Fin 0)) = Fin q"
    by (simp add: v)
  from plus_with_Fin [OF p] obtain a b
    where a: "times_with rnd x (Fin 0) = Fin a" and b: "times_with rnd y (Fin 0) = Fin b" by blast
  have "a = 0" "b = 0"
    using times_with_zero [where rnd = rnd, OF assms(1) a] times_with_zero [where rnd = rnd, OF assms(1) b] by simp_all
  then show ?thesis using p a b assms(1) by simp
qed

lemma numerator_zero:
  assumes "rnd 0 = Fin 0"
    and "times_with rnd (minus_with rnd (times_with rnd p (dot_with rnd v (Fin 0, Fin 0)))
                                         (times_with rnd q (dot_with rnd w (Fin 0, Fin 0)))) i = Fin u"
  shows "u = 0"
proof -
  from times_with_Fin [OF assms(2)] obtain n i'
    where n: "minus_with rnd (times_with rnd p (dot_with rnd v (Fin 0, Fin 0)))
                (times_with rnd q (dot_with rnd w (Fin 0, Fin 0))) = Fin n"
      and i: "i = Fin i'" by blast
  from minus_with_Fin [OF n] obtain x y
    where x: "times_with rnd p (dot_with rnd v (Fin 0, Fin 0)) = Fin x"
      and y: "times_with rnd q (dot_with rnd w (Fin 0, Fin 0)) = Fin y" by blast
  from times_with_Fin [OF x] obtain dv where dv: "dot_with rnd v (Fin 0, Fin 0) = Fin dv" by blast
  from times_with_Fin [OF y] obtain dw where dw: "dot_with rnd w (Fin 0, Fin 0) = Fin dw" by blast
  have "dv = 0" "dw = 0"
    using dot_with_zero [where rnd = rnd, OF assms(1) dv] dot_with_zero [where rnd = rnd, OF assms(1) dw] by simp_all
  then have "x = 0" "y = 0"
    using x y dv dw times_with_zero [where rnd = rnd, OF assms(1)] by simp_all
  then have "n = 0" using n x y assms(1) by simp
  then show ?thesis using assms n i by simp
qed

lemma numerator_cancels:
  assumes "rnd 0 = Fin 0" and "times_with rnd (minus_with rnd X X) i = Fin u"
  shows "u = 0"
proof -
  from times_with_Fin [OF assms(2)] obtain n i'
    where n: "minus_with rnd X X = Fin n" and i: "i = Fin i'" by blast
  from minus_with_Fin [OF n] obtain x where "X = Fin x" by blast
  then have "n = 0" using n assms(1) by simp
  then show ?thesis using assms n i by simp
qed

lemma corner_A:
  assumes "rnd 0 = Fin 0"
    and "cartesian_to_barycentric_with rnd (tri A B C) (pt A) = (Fin u, Fin v)"
  shows "u = 0 \<and> v = 0"
proof -
  obtain ax ay where A: "A = (ax, ay)" by (cases A)
  define v0 v1 where "v0 = sub_with rnd (pt C) (pt A)" and "v1 = sub_with rnd (pt B) (pt A)"
  define d00 d01 d11 where "d00 = dot_with rnd v0 v0" and "d01 = dot_with rnd v0 v1"
    and "d11 = dot_with rnd v1 v1"
  define inv where
    "inv = divide_with rnd (Fin 1) (minus_with rnd (times_with rnd d00 d11) (times_with rnd d01 d01))"
  have z: "sub_with rnd (pt A) (pt A) = (Fin 0, Fin 0)"
    using assms(1) by (simp add: A)
  have "cartesian_to_barycentric_with rnd (tri A B C) (pt A) =
      (times_with rnd (minus_with rnd (times_with rnd d11 (dot_with rnd v0 (Fin 0, Fin 0)))
                                       (times_with rnd d01 (dot_with rnd v1 (Fin 0, Fin 0)))) inv,
       times_with rnd (minus_with rnd (times_with rnd d00 (dot_with rnd v1 (Fin 0, Fin 0)))
                                       (times_with rnd d01 (dot_with rnd v0 (Fin 0, Fin 0)))) inv)"
    by (simp only: tri_def cartesian_to_barycentric_with.simps Let_def z v0_def v1_def d00_def
        d01_def d11_def inv_def)
  with assms(2) have
    u: "times_with rnd (minus_with rnd (times_with rnd d11 (dot_with rnd v0 (Fin 0, Fin 0)))
                                       (times_with rnd d01 (dot_with rnd v1 (Fin 0, Fin 0)))) inv = Fin u"
    and v: "times_with rnd (minus_with rnd (times_with rnd d00 (dot_with rnd v1 (Fin 0, Fin 0)))
                                       (times_with rnd d01 (dot_with rnd v0 (Fin 0, Fin 0)))) inv = Fin v"
    by simp_all
  from numerator_zero [where rnd = rnd, OF assms(1) u] numerator_zero [where rnd = rnd, OF assms(1) v]
  show ?thesis by simp
qed

lemma corner_B:
  assumes "rnd 0 = Fin 0"
    and "cartesian_to_barycentric_with rnd (tri A B C) (pt B) = (Fin u, Fin v)"
  shows "u = 0 \<and> Fin v = times_with rnd (denominator_with rnd (tri A B C))
                          (divide_with rnd (Fin 1) (denominator_with rnd (tri A B C)))"
proof -
  define v0 v1 where "v0 = sub_with rnd (pt C) (pt A)" and "v1 = sub_with rnd (pt B) (pt A)"
  define d00 d01 d11 where "d00 = dot_with rnd v0 v0" and "d01 = dot_with rnd v0 v1"
    and "d11 = dot_with rnd v1 v1"
  define D where "D = minus_with rnd (times_with rnd d00 d11) (times_with rnd d01 d01)"
  have den: "denominator_with rnd (tri A B C) = D"
    by (simp only: tri_def denominator_with.simps Let_def v0_def v1_def d00_def d01_def d11_def D_def)
  have "cartesian_to_barycentric_with rnd (tri A B C) (pt B) =
      (times_with rnd (minus_with rnd (times_with rnd d11 d01) (times_with rnd d01 d11))
         (divide_with rnd (Fin 1) D),
       times_with rnd D (divide_with rnd (Fin 1) D))"
    by (simp only: tri_def cartesian_to_barycentric_with.simps Let_def v0_def v1_def d00_def
        d01_def d11_def D_def)
  with assms(2) have
    u: "times_with rnd (minus_with rnd (times_with rnd d11 d01) (times_with rnd d01 d11))
         (divide_with rnd (Fin 1) D) = Fin u"
    and v: "times_with rnd D (divide_with rnd (Fin 1) D) = Fin v"
    by simp_all
  have "times_with rnd d01 d11 = times_with rnd d11 d01" by (rule times_with_commute)
  with u have "times_with rnd (minus_with rnd (times_with rnd d11 d01) (times_with rnd d11 d01))
         (divide_with rnd (Fin 1) D) = Fin u" by simp
  from numerator_cancels [where rnd = rnd, OF assms(1) this] v show ?thesis
    by (simp add: den)
qed

lemma corner_C:
  assumes "rnd 0 = Fin 0"
    and "cartesian_to_barycentric_with rnd (tri A B C) (pt C) = (Fin u, Fin v)"
  shows "v = 0 \<and> Fin u = times_with rnd (denominator_with rnd (tri A B C))
                          (divide_with rnd (Fin 1) (denominator_with rnd (tri A B C)))"
proof -
  define v0 v1 where "v0 = sub_with rnd (pt C) (pt A)" and "v1 = sub_with rnd (pt B) (pt A)"
  define d00 d01 d11 where "d00 = dot_with rnd v0 v0" and "d01 = dot_with rnd v0 v1"
    and "d11 = dot_with rnd v1 v1"
  define D where "D = minus_with rnd (times_with rnd d00 d11) (times_with rnd d01 d01)"
  have den: "denominator_with rnd (tri A B C) = D"
    by (simp only: tri_def denominator_with.simps Let_def v0_def v1_def d00_def d01_def d11_def D_def)
  have "cartesian_to_barycentric_with rnd (tri A B C) (pt C) =
      (times_with rnd (minus_with rnd (times_with rnd d11 d00) (times_with rnd d01 (dot_with rnd v1 v0)))
         (divide_with rnd (Fin 1) D),
       times_with rnd (minus_with rnd (times_with rnd d00 (dot_with rnd v1 v0)) (times_with rnd d01 d00))
         (divide_with rnd (Fin 1) D))"
    by (simp only: tri_def cartesian_to_barycentric_with.simps Let_def v0_def v1_def d00_def
        d01_def d11_def D_def)
  moreover have "dot_with rnd v1 v0 = d01" unfolding d01_def by (rule dot_with_commute)
  moreover have "times_with rnd d11 d00 = times_with rnd d00 d11" by (rule times_with_commute)
  moreover have "times_with rnd d01 d00 = times_with rnd d00 d01" by (rule times_with_commute)
  ultimately have
    u: "times_with rnd D (divide_with rnd (Fin 1) D) = Fin u"
    and v: "times_with rnd (minus_with rnd (times_with rnd d00 d01) (times_with rnd d00 d01))
         (divide_with rnd (Fin 1) D) = Fin v"
    using assms(2) by (simp_all add: D_def)
  from numerator_cancels [where rnd = rnd, OF assms(1) v] u show ?thesis
    by (simp add: den)
qed

lemma r_inv49: "binary64 (1 / 49) = Fin (5882252574524729 / 288230376151711744)"
  using binary64_eval [of "1 / 49" "- 6"]
  by (simp add: pow2_def round_half_even_def Let_def floor_rat_numeral)

lemma r_one49: "binary64 (49 * 5882252574524729 / 288230376151711744)
                  = Fin (9007199254740991 / 9007199254740992)"
  using binary64_eval [of "49 * 5882252574524729 / 288230376151711744" "- 1"]
  by (simp add: pow2_def round_half_even_def Let_def floor_rat_numeral)

text \<open>
  Claim C6, amended. For a triangle \<open>(A, B, C)\<close> with finite corners and any rounding
  that leaves 0 unchanged (binary64 does): whenever the coordinates computed for a
  corner are finite, they are \<open>(0, 0)\<close> at \<open>A\<close>, \<open>(0, w)\<close> at \<open>B\<close> and \<open>(w, 0)\<close> at \<open>C\<close>,
  where \<open>w\<close> is the rounded product of the computed denominator and its rounded
  reciprocal. Without rounding \<open>w\<close> is 1 for every non-degenerate triangle, so the
  corners are \<open>(0, 0)\<close>, \<open>(0, 1)\<close> and \<open>(1, 0)\<close>: \<open>u\<close> weights \<open>C\<close> and \<open>v\<close> weights \<open>B\<close>.
\<close>

theorem corners_up_to_rounding:
  assumes "rnd 0 = Fin 0"
  shows "(cartesian_to_barycentric_with rnd (tri A B C) (pt A) = (Fin uA, Fin vA) \<longrightarrow> uA = 0 \<and> vA = 0)
       \<and> (cartesian_to_barycentric_with rnd (tri A B C) (pt B) = (Fin uB, Fin vB) \<longrightarrow>
            uB = 0 \<and> Fin vB = times_with rnd (denominator_with rnd (tri A B C))
                                 (divide_with rnd (Fin 1) (denominator_with rnd (tri A B C))))
       \<and> (cartesian_to_barycentric_with rnd (tri A B C) (pt C) = (Fin uC, Fin vC) \<longrightarrow>
            vC = 0 \<and> Fin uC = times_with rnd (denominator_with rnd (tri A B C))
                                 (divide_with rnd (Fin 1) (denominator_with rnd (tri A B C))))
       \<and> (\<not> degenerate A B C \<longrightarrow>
            cartesian_to_barycentric_with Fin (tri A B C) (pt A) = (Fin 0, Fin 0)
          \<and> cartesian_to_barycentric_with Fin (tri A B C) (pt B) = (Fin 0, Fin 1)
          \<and> cartesian_to_barycentric_with Fin (tri A B C) (pt C) = (Fin 1, Fin 0))
       \<and> binary64 0 = Fin 0"
proof (intro conjI impI)
  assume "cartesian_to_barycentric_with rnd (tri A B C) (pt A) = (Fin uA, Fin vA)"
  from corner_A [where rnd = rnd, OF assms this] show "uA = 0" "vA = 0" by simp_all
next
  assume "cartesian_to_barycentric_with rnd (tri A B C) (pt B) = (Fin uB, Fin vB)"
  from corner_B [where rnd = rnd, OF assms this]
  show "uB = 0" "Fin vB = times_with rnd (denominator_with rnd (tri A B C))
                                 (divide_with rnd (Fin 1) (denominator_with rnd (tri A B C)))"
    by simp_all
next
  assume "cartesian_to_barycentric_with rnd (tri A B C) (pt C) = (Fin uC, Fin vC)"
  from corner_C [where rnd = rnd, OF assms this]
  show "vC = 0" "Fin uC = times_with rnd (denominator_with rnd (tri A B C))
                                 (divide_with rnd (Fin 1) (denominator_with rnd (tri A B C)))"
    by simp_all
next
  assume nd: "\<not> degenerate A B C"
  obtain ax ay bx "by" cx cy
    where A: "A = (ax, ay)" and B: "B = (bx, by)" and C: "C = (cx, cy)"
    by (cases A, cases B, cases C) blast
  have a: "area2 (ax, ay) (bx, by) (cx, cy) \<noteq> 0"
    using nd by (simp add: degenerate_def A B C)
  then have a': "(cx - ax) * (by - ay) - (cy - ay) * (bx - ax) \<noteq> 0"
    by simp
  show "cartesian_to_barycentric_with Fin (tri A B C) (pt A) = (Fin 0, Fin 0)"
    unfolding exact_c2b A B C pt.simps c2b_finite [OF a] by simp
  show "cartesian_to_barycentric_with Fin (tri A B C) (pt B) = (Fin 0, Fin 1)"
    unfolding exact_c2b A B C pt.simps c2b_finite [OF a] using a' by (simp add: mult.commute)
  show "cartesian_to_barycentric_with Fin (tri A B C) (pt C) = (Fin 1, Fin 0)"
    unfolding exact_c2b A B C pt.simps c2b_finite [OF a] using a' by (simp add: mult.commute)
next
  show "binary64 0 = Fin 0" by simp
qed

theorem corners_up_to_rounding_witness:
  "binary64 0 = Fin 0
   \<and> cartesian_to_barycentric_with binary64 (tri (0, 0) (1, 3) (3, 2)) (pt (0, 0)) = (Fin 0, Fin 0)
   \<and> cartesian_to_barycentric_with binary64 (tri (0, 0) (1, 3) (3, 2)) (pt (1, 3))
        = (Fin 0, Fin (9007199254740991 / 9007199254740992))
   \<and> cartesian_to_barycentric_with binary64 (tri (0, 0) (1, 3) (3, 2)) (pt (3, 2))
        = (Fin (9007199254740991 / 9007199254740992), Fin 0)
   \<and> \<not> degenerate (0, 0) (1, 3) (3, 2)
   \<and> Fin (9007199254740991 / 9007199254740992)
        = times_with binary64 (denominator_with binary64 (tri (0, 0) (1, 3) (3, 2)))
            (divide_with binary64 (Fin 1) (denominator_with binary64 (tri (0, 0) (1, 3) (3, 2))))
   \<and> cartesian_to_barycentric_with Fin (tri (0, 0) (1, 3) (3, 2)) (pt (1, 3)) = (Fin 0, Fin 1)"
  using corners_up_to_rounding [of binary64 "(0, 0)" "(1, 3)" "(3, 2)" 0 0 0
      "9007199254740991 / 9007199254740992" "9007199254740991 / 9007199254740992" 0]
    r_inv49 r_one49
  by (simp add: degenerate_def tri_def Let_def)

text \<open>
  Claim C6 as stated fails for the running code: in binary64 the corner \<open>B\<close> of
  \<open>(0,0), (1,3), (3,2)\<close> has \<open>v = 49 * (1 / 49) = 1 - 2 ^ -53\<close>, not 1.
\<close>

theorem corner_not_fixed_in_binary64:
  "\<not> degenerate (0, 0) (1, 3) (3, 2)
   \<and> cartesian_to_barycentric_with binary64 (tri (0, 0) (1, 3) (3, 2)) (pt (1, 3))
      = (Fin 0, Fin (9007199254740991 / 9007199254740992))"
  using r_inv49 r_one49
  by (simp add: degenerate_def tri_def Let_def)


text \<open>
  Claim C10. \<open>barycentric_to_cartesian\<close> never fails on a triangle: for every array of
  at least three corners, degenerate or not, and every \<open>uv\<close> it returns the two
  numbers \<open>A + (u * (C - A) + v * (B - A))\<close>, coordinate by coordinate, built from
  additions, subtractions and multiplications only, whatever the rounding. Its only
  failure is the \<open>TypeError\<close> of an array with fewer than three corners.
\<close>

theorem barycentric_to_cartesian_never_fails:
  "(3 \<le> length t \<longrightarrow>
      barycentric_to_cartesian_js rnd t uv =
        Inr [plus_with rnd (element (t ! 0) 0)
               (plus_with rnd
                 (times_with rnd (element uv 0) (minus_with rnd (element (t ! 2) 0) (element (t ! 0) 0)))
                 (times_with rnd (element uv 1) (minus_with rnd (element (t ! 1) 0) (element (t ! 0) 0)))),
             plus_with rnd (element (t ! 0) 1)
               (plus_with rnd
                 (times_with rnd (element uv 0) (minus_with rnd (element (t ! 2) 1) (element (t ! 0) 1)))
                 (times_with rnd (element uv 1) (minus_with rnd (element (t ! 1) 1) (element (t ! 0) 1))))])
   \<and> (length t < 3 \<longrightarrow> barycentric_to_cartesian_js rnd t uv = Inl TypeError)
   \<and> barycentric_to_cartesian_js rnd [[ax, ay], [bx, by], [cx, cy]] [u, v] =
        Inr [fst (barycentric_to_cartesian_with rnd ((ax, ay), (bx, by), (cx, cy)) (u, v)),
             snd (barycentric_to_cartesian_with rnd ((ax, ay), (bx, by), (cx, cy)) (u, v))]"
proof (intro conjI impI)
  assume "3 \<le> length t"
  then show "barycentric_to_cartesian_js rnd t uv =
        Inr [plus_with rnd (element (t ! 0) 0)
               (plus_with rnd
                 (times_with rnd (element uv 0) (minus_with rnd (element (t ! 2) 0) (element (t ! 0) 0)))
                 (times_with rnd (element uv 1) (minus_with rnd (element (t ! 1) 0) (element (t ! 0) 0)))),
             plus_with rnd (element (t ! 0) 1)
               (plus_with rnd
                 (times_with rnd (element uv 0) (minus_with rnd (element (t ! 2) 1) (element (t ! 0) 1)))
                 (times_with rnd (element uv 1) (minus_with rnd (element (t ! 1) 1) (element (t ! 0) 1))))]"
    by (auto simp add: barycentric_to_cartesian_js_def item_def element_def)
next
  assume "length t < 3"
  then show "barycentric_to_cartesian_js rnd t uv = Inl TypeError"
    by (cases "length t < 2"; cases "length t = 0")
       (simp_all add: barycentric_to_cartesian_js_def item_def)
next
  show "barycentric_to_cartesian_js rnd [[ax, ay], [bx, by], [cx, cy]] [u, v] =
        Inr [fst (barycentric_to_cartesian_with rnd ((ax, ay), (bx, by), (cx, cy)) (u, v)),
             snd (barycentric_to_cartesian_with rnd ((ax, ay), (bx, by), (cx, cy)) (u, v))]"
    by (simp add: barycentric_to_cartesian_js_def item_def element_def Let_def)
qed

theorem barycentric_to_cartesian_never_fails_witness:
  "(3::nat) \<le> length [[Fin 0, Fin 0], [Fin 5, Fin 5], [Fin 10, Fin 10]]
   \<and> length [[Fin 0, Fin 0], [Fin 5, Fin 5]] < (3::nat)
   \<and> denominator_with binary64 ((Fin 0, Fin 0), (Fin 5, Fin 5), (Fin 10, Fin 10)) = Fin 0
   \<and> barycentric_to_cartesian_js binary64 [[Fin 0, Fin 0], [Fin 5, Fin 5], [Fin 10, Fin 10]]
        [Fin (1 / 2), Fin 2] = Inr [Fin 15, Fin 15]
   \<and> barycentric_to_cartesian_js binary64 [[Fin 0, Fin 0], [Fin 5, Fin 5]] [Fin (1 / 2), Fin 2]
        = Inl TypeError"
  using barycentric_to_cartesian_never_fails
      [where t = "[[Fin 0, Fin 0], [Fin 5, Fin 5], [Fin 10, Fin 10]]" and rnd = binary64
         and uv = "[Fin (1 / 2), Fin 2]"]
    barycentric_to_cartesian_never_fails
      [where t = "[[Fin 0, Fin 0], [Fin 5, Fin 5]]" and rnd = binary64 and uv = "[Fin (1 / 2), Fin 2]"]
  by (simp add: element_def Let_def)


section \<open>The loops as a fold over the pixels\<close>

lemma length_array_set: "length (array_set xs i v) = length xs"
  by (simp add: array_set_def)

lemma nth_array_set:
  "j < length xs \<Longrightarrow> array_set xs i v ! j = (if j = i then to_clamped v else xs ! j)"
  by (simp add: array_set_def)

lemma write_data_other: "a \<noteq> b \<Longrightarrow> write_data h a i v b = h b"
  by (simp add: write_data_def)

lemma write_data_only_data:
  "write_data h a i v = h(a := (h a)\<lparr>data := data (write_data h a i v a)\<rparr>)"
  by (simp add: write_data_def)

lemma data_write_data: "data (write_data h a i v a) = array_set (data (h a)) i v"
  by (simp add: write_data_def)

lemma only_data_trans:
  assumes "h1 = h(a := (h a)\<lparr>data := D1\<rparr>)" and "h2 = h1(a := (h1 a)\<lparr>data := D2\<rparr>)"
  shows "h2 = h(a := (h a)\<lparr>data := data (h2 a)\<rparr>)"
  using assms by simp

lemma map_pixel_only_data:
  "map_pixel src st dst dt x y h = h(dst := (h dst)\<lparr>data := data (map_pixel src st dst dt x y h dst)\<rparr>)"
  by (simp add: map_pixel_def Let_def write_data_def)

lemma loop_y_fold:
  "loop_y src st dst dt x y h = fold (map_pixel src st dst dt x) [y..<height (h dst)] h"
proof (induction src st dst dt x y h rule: loop_y.induct)
  case (1 src st dst dt x y h)
  show ?case
  proof (cases "y < height (h dst)")
    case True
    then show ?thesis
      using "1" by (subst loop_y.simps) (simp add: upt_conv_Cons map_pixel_height)
  next
    case False
    then show ?thesis by (subst loop_y.simps) simp
  qed
qed

lemma fold_map_pixel_height:
  "height (fold (map_pixel src st dst dt x) ys h b) = height (h b)"
  by (induction ys arbitrary: h) (simp_all add: map_pixel_height)

lemma fold_map_pixel_width:
  "width (fold (map_pixel src st dst dt x) ys h b) = width (h b)"
  by (induction ys arbitrary: h) (simp_all add: map_pixel_width)

lemma loop_x_fold:
  "loop_x src st dst dt x h =
     fold (\<lambda>x. fold (map_pixel src st dst dt x) [0..<height (h dst)]) [x..<width (h dst)] h"
proof (induction src st dst dt x h rule: loop_x.induct)
  case (1 src st dst dt x h)
  show ?case
  proof (cases "x < width (h dst)")
    case True
    then show ?thesis
      using "1"
      by (subst loop_x.simps)
         (simp add: upt_conv_Cons loop_y_fold fold_map_pixel_height fold_map_pixel_width)
  next
    case False
    then show ?thesis by (subst loop_x.simps) simp
  qed
qed

lemma fold_product:
  "fold (\<lambda>x. fold (f x) ys) xs h = fold (\<lambda>p. f (fst p) (snd p)) (List.product xs ys) h"
proof (induction xs arbitrary: h)
  case Nil
  then show ?case by simp
next
  case (Cons x xs)
  have "fold (\<lambda>p. f (fst p) (snd p)) (map (Pair x) ys) h = fold (f x) ys h" for h
    by (induction ys arbitrary: h) simp_all
  with Cons show ?case by simp
qed

lemma map_triangle_run:
  "map_triangle src st dst dt h = run src st dst dt (pixels (h dst)) h"
  by (simp add: map_triangle_def loop_x_fold fold_product run_def pixels_def)


section \<open>One pixel\<close>

lemma jadd_Fin_0: "jadd s (Fin 0) = s"
  by (cases s) simp_all

lemma map_pixel_length: "length (data (map_pixel src st dst dt x y h b)) = length (data (h b))"
  by (simp add: map_pixel_def Let_def write_data_def length_array_set)

lemma array_set_nth_other: "i \<noteq> j \<Longrightarrow> array_set xs j v ! i = xs ! i"
  by (simp add: array_set_def)

lemma data_write_data_nth_other:
  "i \<noteq> j \<Longrightarrow> data (write_data h a j v b) ! i = data (h b) ! i"
  by (simp add: write_data_def array_set_nth_other)

lemma map_pixel_elsewhere:
  assumes "i < dst_pixel_start (width (h dst)) x y \<or> dst_pixel_start (width (h dst)) x y + 4 \<le> i"
  shows "data (map_pixel src st dst dt x y h b) ! i = data (h b) ! i"
  using assms by (auto simp add: map_pixel_def Let_def data_write_data_nth_other)

lemma map_pixel_white:
  assumes "\<not> xy_in_triangle (cartesian_to_barycentric dt (num x, num y))"
    and "k < 4" and "dst_pixel_start (width (h dst)) x y + k < length (data (h dst))"
  shows "data (map_pixel src st dst dt x y h dst) ! (dst_pixel_start (width (h dst)) x y + k) = 255"
proof -
  from \<open>k < 4\<close> consider "k = 0" | "k = 1" | "k = 2" | "k = 3" by linarith
  then show ?thesis
    using assms(1,3)
    by cases (simp_all add: map_pixel_def Let_def write_data_def array_set_def)
qed

lemma map_pixel_colour:
  assumes "src \<noteq> dst"
    and "k < 4" and "dst_pixel_start (width (h dst)) x y + k < length (data (h dst))"
  shows "data (map_pixel src st dst dt x y h dst) ! (dst_pixel_start (width (h dst)) x y + k)
         = pixel_colour (h src) st dt x y k"
proof -
  from \<open>k < 4\<close> consider "k = 0" | "k = 1" | "k = 2" | "k = 3" by linarith
  then show ?thesis
    using assms(1,3)
    by cases (simp_all add: map_pixel_def pixel_colour_def Let_def write_data_def read_data_def
        array_set_def jadd_Fin_0 num_def)
qed

lemma run_Nil: "run src st dst dt [] h = h"
  by (simp add: run_def)

lemma run_Cons:
  "run src st dst dt (p # ps) h = run src st dst dt ps (map_pixel src st dst dt (fst p) (snd p) h)"
  by (simp add: run_def)

lemma run_only_data:
  "run src st dst dt ps h = h(dst := (h dst)\<lparr>data := data (run src st dst dt ps h dst)\<rparr>)"
proof (induction ps arbitrary: h)
  case Nil
  then show ?case by (simp add: run_Nil)
next
  case (Cons p ps)
  let ?h1 = "map_pixel src st dst dt (fst p) (snd p) h"
  have a: "?h1 = h(dst := (h dst)\<lparr>data := data (?h1 dst)\<rparr>)"
    by (rule map_pixel_only_data)
  have b: "run src st dst dt ps ?h1 = ?h1(dst := (?h1 dst)\<lparr>data := data (run src st dst dt ps ?h1 dst)\<rparr>)"
    by (rule Cons.IH)
  show ?case
    unfolding run_Cons by (rule only_data_trans [OF a b])
qed

lemma run_other: "a \<noteq> dst \<Longrightarrow> run src st dst dt ps h a = h a"
  by (subst run_only_data) simp

lemma run_width: "width (run src st dst dt ps h b) = width (h b)"
  by (subst run_only_data) simp

lemma run_height: "height (run src st dst dt ps h b) = height (h b)"
  by (subst run_only_data) simp

lemma run_length: "length (data (run src st dst dt ps h b)) = length (data (h b))"
  by (induction ps arbitrary: h) (simp_all add: run_Nil run_Cons map_pixel_length)

lemma run_elsewhere:
  assumes "\<forall>p\<in>set ps. i < dst_pixel_start (width (h dst)) (fst p) (snd p)
                      \<or> dst_pixel_start (width (h dst)) (fst p) (snd p) + 4 \<le> i"
  shows "data (run src st dst dt ps h b) ! i = data (h b) ! i"
  using assms
proof (induction ps arbitrary: h)
  case Nil
  then show ?case by (simp add: run_Nil)
next
  case (Cons p ps)
  then show ?case
    by (simp add: run_Cons map_pixel_width map_pixel_elsewhere)
qed

lemma pixel_index_inj:
  fixes W :: nat
  assumes "x < W" and "x' < W" and "x + y * W = x' + y' * W"
  shows "x = x' \<and> y = y'"
proof -
  have "(x + y * W) mod W = x" "(x' + y' * W) mod W = x'"
    using assms(1,2) by simp_all
  then have x: "x = x'" using assms(3) by simp
  have "(x + y * W) div W = y" "(x' + y' * W) div W = y'"
    using assms(1,2) by simp_all
  then have "y = y'" using assms(3) by simp
  with x show ?thesis by simp
qed

lemma pixels_disjoint:
  assumes "x < W" and "x' < W" and "(x, y) \<noteq> (x', y')" and "k < 4"
  shows "dst_pixel_start W x y + k < dst_pixel_start W x' y'
       \<or> dst_pixel_start W x' y' + 4 \<le> dst_pixel_start W x y + k"
proof -
  have "x + y * W \<noteq> x' + y' * W"
    using pixel_index_inj [OF assms(1,2)] assms(3) by blast
  then show ?thesis
    using assms(4) by (simp add: dst_pixel_start_def PIXEL_WIDTH_def) linarith
qed

lemma run_pixel_general:
  assumes "distinct ps" and "(x, y) \<in> set ps" and "\<forall>p\<in>set ps. fst p < width (h dst)"
    and "k < 4" and "dst_pixel_start (width (h dst)) x y + k < length (data (h dst))"
    and step: "\<And>h'. width (h' dst) = width (h dst) \<Longrightarrow> length (data (h' dst)) = length (data (h dst))
           \<Longrightarrow> h' src = h src \<or> src = dst
           \<Longrightarrow> data (map_pixel src st dst dt x y h' dst) ! (dst_pixel_start (width (h dst)) x y + k) = v"
  shows "data (run src st dst dt ps h dst) ! (dst_pixel_start (width (h dst)) x y + k) = v"
  using assms(1,2,3,5) step
proof (induction ps arbitrary: h)
  case Nil
  then show ?case by simp
next
  case (Cons p ps)
  let ?h1 = "map_pixel src st dst dt (fst p) (snd p) h"
  have w1: "width (?h1 dst) = width (h dst)" by (simp add: map_pixel_width)
  have l1: "length (data (?h1 dst)) = length (data (h dst))" by (simp add: map_pixel_length)
  have s1: "?h1 src = h src \<or> src = dst"
    by (subst map_pixel_only_data) auto
  show ?case
  proof (cases "p = (x, y)")
    case True
    have x: "x < width (h dst)" using Cons.prems(3) True by simp
    have notin: "(x, y) \<notin> set ps" using Cons.prems(1) True by simp
    have "\<forall>q\<in>set ps. dst_pixel_start (width (?h1 dst)) x y + k < dst_pixel_start (width (?h1 dst)) (fst q) (snd q)
            \<or> dst_pixel_start (width (?h1 dst)) (fst q) (snd q) + 4 \<le> dst_pixel_start (width (?h1 dst)) x y + k"
    proof
      fix q assume q: "q \<in> set ps"
      then have "fst q < width (h dst)" using Cons.prems(3) by simp
      moreover have "(x, y) \<noteq> (fst q, snd q)" using q notin by auto
      ultimately show "dst_pixel_start (width (?h1 dst)) x y + k < dst_pixel_start (width (?h1 dst)) (fst q) (snd q)
            \<or> dst_pixel_start (width (?h1 dst)) (fst q) (snd q) + 4 \<le> dst_pixel_start (width (?h1 dst)) x y + k"
        unfolding w1 using pixels_disjoint [OF x _ _ \<open>k < 4\<close>] by blast
    qed
    then have "data (run src st dst dt ps ?h1 dst) ! (dst_pixel_start (width (?h1 dst)) x y + k)
             = data (?h1 dst) ! (dst_pixel_start (width (?h1 dst)) x y + k)"
      by (rule run_elsewhere)
    also have "\<dots> = v"
      unfolding w1 using True Cons.prems(5) [of h] by simp
    finally show ?thesis
      unfolding run_Cons w1 .
  next
    case False
    have "data (run src st dst dt ps ?h1 dst) ! (dst_pixel_start (width (?h1 dst)) x y + k) = v"
    proof (rule Cons.IH)
      show "distinct ps" using Cons.prems(1) by simp
      show "(x, y) \<in> set ps" using Cons.prems(2) False by auto
      show "\<forall>p\<in>set ps. fst p < width (?h1 dst)" using Cons.prems(3) w1 by simp
      show "dst_pixel_start (width (?h1 dst)) x y + k < length (data (?h1 dst))"
        using Cons.prems(4) w1 l1 by simp
      fix h'
      assume "width (h' dst) = width (?h1 dst)" "length (data (h' dst)) = length (data (?h1 dst))"
        "h' src = ?h1 src \<or> src = dst"
      then show "data (map_pixel src st dst dt x y h' dst) ! (dst_pixel_start (width (?h1 dst)) x y + k) = v"
        unfolding w1 l1 using s1 Cons.prems(5) [of h'] by auto
    qed
    then show ?thesis
      unfolding run_Cons w1 .
  qed
qed


section \<open>Copying within one array\<close>





lemma array_get_special [simp]:
  "array_get xs (jadd PInf (Fin j)) = None"
  "array_get xs (jadd NInf (Fin j)) = None"
  "array_get xs (jadd NaN (Fin j)) = None"
  by simp_all






section \<open>The whole call\<close>

lemma in_pixels: "(x, y) \<in> set (pixels img) \<longleftrightarrow> x < width img \<and> y < height img"
  by (simp add: pixels_def)

lemma distinct_pixels: "distinct (pixels img)"
  by (simp add: pixels_def distinct_product)

lemma pixels_fst: "\<forall>p\<in>set (pixels img). fst p < width img"
  by (auto simp add: pixels_def)

lemma map_triangle_only_data:
  "map_triangle src st dst dt h =
     h(dst := (h dst)\<lparr>data := data (map_triangle src st dst dt h dst)\<rparr>)"
  unfolding map_triangle_run by (rule run_only_data)

lemma map_triangle_length:
  "length (data (map_triangle src st dst dt h b)) = length (data (h b))"
  by (simp add: map_triangle_run run_length)

lemma map_triangle_white:
  assumes "x < width (h dst)" and "y < height (h dst)"
    and "\<not> xy_in_triangle (cartesian_to_barycentric dt (num x, num y))"
    and "k < 4" and "dst_pixel_start (width (h dst)) x y + k < length (data (h dst))"
  shows "data (map_triangle src st dst dt h dst) ! (dst_pixel_start (width (h dst)) x y + k) = 255"
  unfolding map_triangle_run
proof (rule run_pixel_general [where ps = "pixels (h dst)" and h = h and dst = dst,
      OF distinct_pixels _ pixels_fst assms(4,5)])
  show "(x, y) \<in> set (pixels (h dst))"
    using assms(1,2) by (simp add: in_pixels)
  fix h' :: heap
  assume "width (h' dst) = width (h dst)" "length (data (h' dst)) = length (data (h dst))"
  then show "data (map_pixel src st dst dt x y h' dst) ! (dst_pixel_start (width (h dst)) x y + k) = 255"
    using map_pixel_white [OF assms(3,4), of h' dst src st] assms(5) by simp
qed

lemma map_triangle_pixel:
  assumes "src \<noteq> dst" and "x < width (h dst)" and "y < height (h dst)"
    and "k < 4" and "dst_pixel_start (width (h dst)) x y + k < length (data (h dst))"
  shows "data (map_triangle src st dst dt h dst) ! (dst_pixel_start (width (h dst)) x y + k)
         = pixel_colour (h src) st dt x y k"
  unfolding map_triangle_run
proof (rule run_pixel_general [where ps = "pixels (h dst)" and h = h and dst = dst,
      OF distinct_pixels _ pixels_fst assms(4,5)])
  show "(x, y) \<in> set (pixels (h dst))"
    using assms(2,3) by (simp add: in_pixels)
  fix h' :: heap
  assume "width (h' dst) = width (h dst)" "length (data (h' dst)) = length (data (h dst))"
    "h' src = h src \<or> src = dst"
  then show "data (map_pixel src st dst dt x y h' dst) ! (dst_pixel_start (width (h dst)) x y + k)
             = pixel_colour (h src) st dt x y k"
    using map_pixel_colour [OF assms(1,4), of h' x y st dt] assms(1,5) by simp
qed

lemma pixel_in_range:
  assumes "well_formed img" and "x < width img" and "y < height img" and "k < 4"
  shows "dst_pixel_start (width img) x y + k < length (data img)"
proof -
  have "x + y * width img < width img + y * width img" using assms(2) by simp
  also have "\<dots> = Suc y * width img" by simp
  also have "\<dots> \<le> height img * width img"
    using assms(3) by (intro mult_le_mono1) simp
  finally have "x + y * width img < width img * height img" by (simp add: mult.commute)
  then show ?thesis
    using assms(1,4) by (simp add: well_formed_def dst_pixel_start_def PIXEL_WIDTH_def)
qed

lemma pixel_decode:
  assumes "i < PIXEL_WIDTH * (W * H)"
  shows "(i div 4) mod W < W \<and> (i div 4) div W < H \<and> i mod 4 < 4
       \<and> i = dst_pixel_start W ((i div 4) mod W) ((i div 4) div W) + i mod 4"
proof -
  have a: "i div 4 < W * H" using assms by (simp add: PIXEL_WIDTH_def)
  then have W: "0 < W" by (cases W) simp_all
  have "(i div 4) div W < H"
    using a W by (simp add: less_mult_imp_div_less mult.commute)
  then show ?thesis
    using W by (simp add: dst_pixel_start_def PIXEL_WIDTH_def)
qed

lemma map_triangle_beyond:
  assumes "PIXEL_WIDTH * (width (h dst) * height (h dst)) \<le> i"
  shows "data (map_triangle src st dst dt h b) ! i = data (h b) ! i"
  unfolding map_triangle_run
proof (rule run_elsewhere, rule ballI, rule disjI2)
  fix p assume "p \<in> set (pixels (h dst))"
  then have x: "fst p < width (h dst)" and y: "snd p < height (h dst)"
    by (auto simp add: pixels_def)
  have "fst p + snd p * width (h dst) < width (h dst) + snd p * width (h dst)" using x by simp
  also have "\<dots> = Suc (snd p) * width (h dst)" by simp
  also have "\<dots> \<le> height (h dst) * width (h dst)"
    using y by (intro mult_le_mono1) simp
  finally have "fst p + snd p * width (h dst) < width (h dst) * height (h dst)"
    by (simp add: mult.commute)
  then show "dst_pixel_start (width (h dst)) (fst p) (snd p) + 4 \<le> i"
    using assms by (simp add: dst_pixel_start_def PIXEL_WIDTH_def)
qed

lemma all_white:
  assumes "well_formed (h dst)"
    and "\<And>x y. \<not> xy_in_triangle (cartesian_to_barycentric dt (num x, num y))"
  shows "data (map_triangle src st dst dt h dst) = replicate (length (data (h dst))) 255"
proof (rule nth_equalityI)
  show "length (data (map_triangle src st dst dt h dst)) = length (replicate (length (data (h dst))) (255 :: byte))"
    by (simp add: map_triangle_length)
next
  fix i assume "i < length (data (map_triangle src st dst dt h dst))"
  then have i: "i < length (data (h dst))" by (simp add: map_triangle_length)
  then have "i < PIXEL_WIDTH * (width (h dst) * height (h dst))"
    using assms(1) by (simp add: well_formed_def)
  from pixel_decode [OF this] obtain x y k
    where x: "x < width (h dst)" and y: "y < height (h dst)" and k: "k < 4"
      and eq: "i = dst_pixel_start (width (h dst)) x y + k"
    by blast
  have "data (map_triangle src st dst dt h dst) ! (dst_pixel_start (width (h dst)) x y + k) = 255"
    using map_triangle_white [where h = h and dst = dst, OF x y assms(2) k] i eq by simp
  then show "data (map_triangle src st dst dt h dst) ! i = replicate (length (data (h dst))) 255 ! i"
    using i eq by simp
qed


section \<open>The running call: frame and traversal\<close>

lemma exact_in_triangle: "xy_in_triangle_with Fin uv = xy_in_triangle uv"
  by (simp add: xy_in_triangle_with_def xy_in_triangle_def exact_ops)

lemma exact_src_pixel_start: "src_pixel_start_with Fin w v = src_pixel_start w v"
  by (simp add: src_pixel_start_with_def src_pixel_start_def exact_ops)

lemma map_pixel_js_exact:
  "images (map_pixel_js Fin src sa dst da x y s)
     = map_pixel src (triangles s sa) dst (triangles s da) x y (images s)"
  by (simp add: map_pixel_js_def map_pixel_def Let_def exact_c2b exact_b2c exact_in_triangle
      exact_src_pixel_start exact_ops)

lemma map_pixel_js_triangles: "triangles (map_pixel_js rnd src sa dst da x y s) = triangles s"
  by (simp add: map_pixel_js_def Let_def)

lemma map_pixel_js_only_data:
  "images (map_pixel_js rnd src sa dst da x y s)
     = (images s)(dst := (images s dst)\<lparr>data := data (images (map_pixel_js rnd src sa dst da x y s) dst)\<rparr>)"
  by (simp add: map_pixel_js_def Let_def write_data_def)

lemma map_pixel_js_length:
  "length (data (images (map_pixel_js rnd src sa dst da x y s) b)) = length (data (images s b))"
  by (simp add: map_pixel_js_def Let_def write_data_def length_array_set)

lemma map_pixel_js_elsewhere:
  assumes "i < dst_pixel_start (width (images s dst)) x y
         \<or> dst_pixel_start (width (images s dst)) x y + 4 \<le> i"
  shows "data (images (map_pixel_js rnd src sa dst da x y s) b) ! i = data (images s b) ! i"
  using assms by (auto simp add: map_pixel_js_def Let_def data_write_data_nth_other)

lemma map_pixel_js_white:
  assumes "\<not> xy_in_triangle_with rnd (cartesian_to_barycentric_with rnd (triangles s da) (num x, num y))"
    and "k < 4" and "dst_pixel_start (width (images s dst)) x y + k < length (data (images s dst))"
  shows "data (images (map_pixel_js rnd src sa dst da x y s) dst)
           ! (dst_pixel_start (width (images s dst)) x y + k) = 255"
proof -
  from \<open>k < 4\<close> consider "k = 0" | "k = 1" | "k = 2" | "k = 3" by linarith
  then show ?thesis
    using assms(1,3)
    by cases (simp_all add: map_pixel_js_def Let_def write_data_def array_set_def)
qed

lemma map_pixel_js_colour:
  assumes "src \<noteq> dst"
    and "k < 4" and "dst_pixel_start (width (images s dst)) x y + k < length (data (images s dst))"
  shows "data (images (map_pixel_js rnd src sa dst da x y s) dst)
           ! (dst_pixel_start (width (images s dst)) x y + k)
         = pixel_colour_with rnd (images s src) (triangles s sa) (triangles s da) x y k"
proof -
  from \<open>k < 4\<close> consider "k = 0" | "k = 1" | "k = 2" | "k = 3" by linarith
  then show ?thesis
    using assms(1,3)
    by cases (simp_all add: map_pixel_js_def pixel_colour_with_def sample_offset_def Let_def
        write_data_def read_data_def array_set_def num_def)
qed

lemma loop_y_js_fold:
  "loop_y_js rnd src sa dst da x y s
     = fold (map_pixel_js rnd src sa dst da x) [y..<height (images s dst)] s"
proof (induction rnd src sa dst da x y s rule: loop_y_js.induct)
  case (1 rnd src sa dst da x y s)
  show ?case
  proof (cases "y < height (images s dst)")
    case True
    then show ?thesis
      using "1" by (subst loop_y_js.simps) (simp add: upt_conv_Cons map_pixel_js_height)
  next
    case False
    then show ?thesis by (subst loop_y_js.simps) simp
  qed
qed

lemma fold_map_pixel_js_height:
  "height (images (fold (map_pixel_js rnd src sa dst da x) ys s) b) = height (images s b)"
  by (induction ys arbitrary: s) (simp_all add: map_pixel_js_height)

lemma fold_map_pixel_js_width:
  "width (images (fold (map_pixel_js rnd src sa dst da x) ys s) b) = width (images s b)"
  by (induction ys arbitrary: s) (simp_all add: map_pixel_js_width)

lemma loop_x_js_fold:
  "loop_x_js rnd src sa dst da x s =
     fold (\<lambda>x. fold (map_pixel_js rnd src sa dst da x) [0..<height (images s dst)])
       [x..<width (images s dst)] s"
proof (induction rnd src sa dst da x s rule: loop_x_js.induct)
  case (1 rnd src sa dst da x s)
  show ?case
  proof (cases "x < width (images s dst)")
    case True
    then show ?thesis
      using "1"
      by (subst loop_x_js.simps)
         (simp add: upt_conv_Cons loop_y_js_fold fold_map_pixel_js_height fold_map_pixel_js_width)
  next
    case False
    then show ?thesis by (subst loop_x_js.simps) simp
  qed
qed

lemma map_triangle_js_run:
  "map_triangle_js rnd src sa dst da s = run_js rnd src sa dst da (pixels (images s dst)) s"
  by (simp add: map_triangle_js_def loop_x_js_fold fold_product run_js_def pixels_def)

lemma run_js_Nil: "run_js rnd src sa dst da [] s = s"
  by (simp add: run_js_def)

lemma run_js_Cons:
  "run_js rnd src sa dst da (p # ps) s
     = run_js rnd src sa dst da ps (map_pixel_js rnd src sa dst da (fst p) (snd p) s)"
  by (simp add: run_js_def)



lemma run_js_length:
  "length (data (images (run_js rnd src sa dst da ps s) b)) = length (data (images s b))"
  by (induction ps arbitrary: s) (simp_all add: run_js_Nil run_js_Cons map_pixel_js_length)

lemma run_js_elsewhere:
  assumes "\<forall>p\<in>set ps. i < dst_pixel_start (width (images s dst)) (fst p) (snd p)
                      \<or> dst_pixel_start (width (images s dst)) (fst p) (snd p) + 4 \<le> i"
  shows "data (images (run_js rnd src sa dst da ps s) b) ! i = data (images s b) ! i"
  using assms
proof (induction ps arbitrary: s)
  case Nil
  then show ?case by (simp add: run_js_Nil)
next
  case (Cons p ps)
  then show ?case
    by (simp add: run_js_Cons map_pixel_js_width map_pixel_js_elsewhere)
qed

lemma run_js_pixel_general:
  assumes "distinct ps" and "(x, y) \<in> set ps" and "\<forall>p\<in>set ps. fst p < width (images s dst)"
    and "k < 4"
    and "dst_pixel_start (width (images s dst)) x y + k < length (data (images s dst))"
    and step: "\<And>s'. width (images s' dst) = width (images s dst)
           \<Longrightarrow> length (data (images s' dst)) = length (data (images s dst))
           \<Longrightarrow> triangles s' = triangles s
           \<Longrightarrow> images s' src = images s src \<or> src = dst
           \<Longrightarrow> data (images (map_pixel_js rnd src sa dst da x y s') dst)
                 ! (dst_pixel_start (width (images s dst)) x y + k) = v"
  shows "data (images (run_js rnd src sa dst da ps s) dst)
           ! (dst_pixel_start (width (images s dst)) x y + k) = v"
  using assms(1,2,3,5) step
proof (induction ps arbitrary: s)
  case Nil
  then show ?case by simp
next
  case (Cons p ps)
  let ?s1 = "map_pixel_js rnd src sa dst da (fst p) (snd p) s"
  have w1: "width (images ?s1 dst) = width (images s dst)" by (simp add: map_pixel_js_width)
  have l1: "length (data (images ?s1 dst)) = length (data (images s dst))"
    by (simp add: map_pixel_js_length)
  have t1: "triangles ?s1 = triangles s" by (simp add: map_pixel_js_triangles)
  have s1: "images ?s1 src = images s src \<or> src = dst"
    by (subst map_pixel_js_only_data) auto
  show ?case
  proof (cases "p = (x, y)")
    case True
    have x: "x < width (images s dst)" using Cons.prems(3) True by simp
    have notin: "(x, y) \<notin> set ps" using Cons.prems(1) True by simp
    have "\<forall>q\<in>set ps. dst_pixel_start (width (images ?s1 dst)) x y + k
                        < dst_pixel_start (width (images ?s1 dst)) (fst q) (snd q)
            \<or> dst_pixel_start (width (images ?s1 dst)) (fst q) (snd q) + 4
                 \<le> dst_pixel_start (width (images ?s1 dst)) x y + k"
    proof
      fix q assume q: "q \<in> set ps"
      then have "fst q < width (images s dst)" using Cons.prems(3) by simp
      moreover have "(x, y) \<noteq> (fst q, snd q)" using q notin by auto
      ultimately show "dst_pixel_start (width (images ?s1 dst)) x y + k
                        < dst_pixel_start (width (images ?s1 dst)) (fst q) (snd q)
            \<or> dst_pixel_start (width (images ?s1 dst)) (fst q) (snd q) + 4
                 \<le> dst_pixel_start (width (images ?s1 dst)) x y + k"
        unfolding w1 using pixels_disjoint [OF x _ _ \<open>k < 4\<close>] by blast
    qed
    then have "data (images (run_js rnd src sa dst da ps ?s1) dst)
                 ! (dst_pixel_start (width (images ?s1 dst)) x y + k)
             = data (images ?s1 dst) ! (dst_pixel_start (width (images ?s1 dst)) x y + k)"
      by (rule run_js_elsewhere)
    also have "\<dots> = v"
      unfolding w1 using True Cons.prems(5) [of s] by simp
    finally show ?thesis
      unfolding run_js_Cons w1 .
  next
    case False
    have "data (images (run_js rnd src sa dst da ps ?s1) dst)
            ! (dst_pixel_start (width (images ?s1 dst)) x y + k) = v"
    proof (rule Cons.IH)
      show "distinct ps" using Cons.prems(1) by simp
      show "(x, y) \<in> set ps" using Cons.prems(2) False by auto
      show "\<forall>p\<in>set ps. fst p < width (images ?s1 dst)" using Cons.prems(3) w1 by simp
      show "dst_pixel_start (width (images ?s1 dst)) x y + k < length (data (images ?s1 dst))"
        using Cons.prems(4) w1 l1 by simp
      fix s' :: js_state
      assume "width (images s' dst) = width (images ?s1 dst)"
        "length (data (images s' dst)) = length (data (images ?s1 dst))"
        "triangles s' = triangles ?s1"
        "images s' src = images ?s1 src \<or> src = dst"
      then show "data (images (map_pixel_js rnd src sa dst da x y s') dst)
                   ! (dst_pixel_start (width (images ?s1 dst)) x y + k) = v"
        unfolding w1 l1 t1 using s1 Cons.prems(5) [of s'] by auto
    qed
    then show ?thesis
      unfolding run_js_Cons w1 .
  qed
qed

lemma run_js_exact:
  "images (run_js Fin src sa dst da ps s) = run src (triangles s sa) dst (triangles s da) ps (images s)"
  by (induction ps arbitrary: s)
     (simp_all add: run_js_Nil run_js_Cons run_Nil run_Cons map_pixel_js_exact map_pixel_js_triangles)

text \<open>
  Without rounding the images that the call leaves are those of \<open>map_triangle\<close> above.
\<close>

lemma map_triangle_js_exact:
  "images (map_triangle_js Fin src sa dst da s)
     = map_triangle src (triangles s sa) dst (triangles s da) (images s)"
  by (simp add: map_triangle_js_run map_triangle_run run_js_exact)

lemma map_triangle_js_length:
  "length (data (images (map_triangle_js rnd src sa dst da s) b)) = length (data (images s b))"
  by (simp add: map_triangle_js_run run_js_length)

lemma map_triangle_js_white:
  assumes "x < width (images s dst)" and "y < height (images s dst)"
    and "\<not> xy_in_triangle_with rnd (cartesian_to_barycentric_with rnd (triangles s da) (num x, num y))"
    and "k < 4"
    and "dst_pixel_start (width (images s dst)) x y + k < length (data (images s dst))"
  shows "data (images (map_triangle_js rnd src sa dst da s) dst)
           ! (dst_pixel_start (width (images s dst)) x y + k) = 255"
  unfolding map_triangle_js_run
proof (rule run_js_pixel_general [where ps = "pixels (images s dst)" and s = s and dst = dst,
      OF distinct_pixels _ pixels_fst assms(4,5)])
  show "(x, y) \<in> set (pixels (images s dst))"
    using assms(1,2) by (simp add: in_pixels)
  fix s' :: js_state
  assume "width (images s' dst) = width (images s dst)"
    "length (data (images s' dst)) = length (data (images s dst))"
    "triangles s' = triangles s"
  then show "data (images (map_pixel_js rnd src sa dst da x y s') dst)
               ! (dst_pixel_start (width (images s dst)) x y + k) = 255"
    using map_pixel_js_white [where s = s' and rnd = rnd and da = da and x = x and y = y
        and k = k and dst = dst and src = src and sa = sa] assms(3,4,5)
    by simp
qed

lemma map_triangle_js_pixel:
  assumes "src \<noteq> dst" and "x < width (images s dst)" and "y < height (images s dst)"
    and "k < 4"
    and "dst_pixel_start (width (images s dst)) x y + k < length (data (images s dst))"
  shows "data (images (map_triangle_js rnd src sa dst da s) dst)
           ! (dst_pixel_start (width (images s dst)) x y + k)
         = pixel_colour_with rnd (images s src) (triangles s sa) (triangles s da) x y k"
  unfolding map_triangle_js_run
proof (rule run_js_pixel_general [where ps = "pixels (images s dst)" and s = s and dst = dst,
      OF distinct_pixels _ pixels_fst assms(4,5)])
  show "(x, y) \<in> set (pixels (images s dst))"
    using assms(2,3) by (simp add: in_pixels)
  fix s' :: js_state
  assume "width (images s' dst) = width (images s dst)"
    "length (data (images s' dst)) = length (data (images s dst))"
    "triangles s' = triangles s"
    "images s' src = images s src \<or> src = dst"
  then show "data (images (map_pixel_js rnd src sa dst da x y s') dst)
               ! (dst_pixel_start (width (images s dst)) x y + k)
             = pixel_colour_with rnd (images s src) (triangles s sa) (triangles s da) x y k"
    using map_pixel_js_colour [where s = s' and rnd = rnd and da = da and x = x and y = y
        and k = k and dst = dst and src = src and sa = sa] assms(1,4,5)
    by simp
qed

lemma all_white_js:
  assumes "well_formed (images s dst)"
    and "\<And>x y. \<not> xy_in_triangle_with rnd
                    (cartesian_to_barycentric_with rnd (triangles s da) (num x, num y))"
  shows "data (images (map_triangle_js rnd src sa dst da s) dst)
           = replicate (length (data (images s dst))) 255"
proof (rule nth_equalityI)
  show "length (data (images (map_triangle_js rnd src sa dst da s) dst))
          = length (replicate (length (data (images s dst))) (255 :: byte))"
    by (simp add: map_triangle_js_length)
next
  fix i assume "i < length (data (images (map_triangle_js rnd src sa dst da s) dst))"
  then have i: "i < length (data (images s dst))" by (simp add: map_triangle_js_length)
  then have "i < PIXEL_WIDTH * (width (images s dst) * height (images s dst))"
    using assms(1) by (simp add: well_formed_def)
  from pixel_decode [OF this] obtain x y k
    where x: "x < width (images s dst)" and y: "y < height (images s dst)" and k: "k < 4"
      and eq: "i = dst_pixel_start (width (images s dst)) x y + k"
    by blast
  have "data (images (map_triangle_js rnd src sa dst da s) dst)
          ! (dst_pixel_start (width (images s dst)) x y + k) = 255"
    using map_triangle_js_white [where s = s and dst = dst and rnd = rnd and da = da,
        OF x y assms(2) k] i eq by simp
  then show "data (images (map_triangle_js rnd src sa dst da s) dst) ! i
               = replicate (length (data (images s dst))) 255 ! i"
    using i eq by simp
qed

lemma in_triangle_with_finite:
  "xy_in_triangle_with rnd uv \<Longrightarrow> is_finite (fst uv) \<and> is_finite (snd uv)"
  by (cases uv; cases "fst uv"; cases "snd uv") (simp_all add: xy_in_triangle_with_def jge_def)


section \<open>What a call does to the images\<close>


lemma array_get_num: "n < length xs \<Longrightarrow> array_get xs (num n) = Some (xs ! n)"
  by (simp add: num_def)

lemma jadd_num: "jadd (num m) (num n) = num (m + n)"
  by (simp add: num_def)











text \<open>
  A call that copies the one pixel of the small image leaves the sample point and the
  offset of that pixel in the two global variables.
\<close>

lemma globals_are_assigned:
  "global_src_xy (map_triangle_js binary64 1 0 0 1 small_state) = Some (pt (0, 0))
   \<and> global_src_pixel_start (map_triangle_js binary64 1 0 0 1 small_state) = Some (Fin 0)
   \<and> global_src_xy small_state = None
   \<and> global_src_pixel_start small_state = None"
  by (simp add: map_triangle_js_def loop_x_js.simps loop_y_js.simps map_pixel_js_def small_state_def
      small_heap_def tri_def num_def Let_def xy_in_triangle_with_def jge_def dst_pixel_start_def
      src_pixel_start_with_def PIXEL_WIDTH_def write_data_def read_data_def array_set_def)

lemma eval_loops:
  "loop_x src st dst dt x h =
     (if x < width (h dst) then loop_x src st dst dt (x + 1) (loop_y src st dst dt x 0 h) else h)"
  "loop_y src st dst dt x y h =
     (if y < height (h dst) then loop_y src st dst dt x (y + 1) (map_pixel src st dst dt x y h) else h)"
  by (subst loop_x.simps, simp) (subst loop_y.simps, simp)


lemma degenerate_iff_denom: "degenerate A B C \<longleftrightarrow> denom A B C = 0"
  by (simp add: degenerate_def denom_area2)

lemma jmul_PInf: "\<not> is_finite (jmul x PInf)"
  by (cases x) (simp_all add: signed_inf_def)

lemma zero_denominator_not_finite:
  assumes "denominator_with rnd t = Fin 0"
  shows "\<not> is_finite (fst (cartesian_to_barycentric_with rnd t p))
       \<and> \<not> is_finite (snd (cartesian_to_barycentric_with rnd t p))"
proof -
  obtain a b c where t: "t = (a, b, c)" by (cases t)
  have "divide_with rnd (Fin 1) (Fin 0) = PInf" by (simp add: signed_inf_def)
  with assms show ?thesis
    unfolding t denominator_with.simps cartesian_to_barycentric_with.simps Let_def
    by (simp add: jmul_PInf)
qed

lemma exact_denominator: "denominator_with Fin (tri A B C) = Fin (denom A B C)"
  by (cases A; cases B; cases C) (simp add: tri_def Let_def)

text \<open>
  In binary64 a zero denominator and collinear corners are two different things. The
  denominator computed for the thin triangle \<open>(0,0), (11585,1), (11586,1)\<close> is 0, and
  the one computed for the collinear corners \<open>(0,0), (0.1,0.1), (0.3,0.3)\<close>, given by
  the binary64 numbers nearest to \<open>1/10\<close> and \<open>3/10\<close>, is \<open>2 ^ -60\<close>.
\<close>

lemma r_tenth: "binary64 (1 / 10) = Fin (3602879701896397 / 36028797018963968)"
  using binary64_eval [of "1 / 10" "-4"]
  by (simp add: pow2_def round_half_even_def Let_def floor_rat_numeral)

lemma r_three_tenths: "binary64 (3 / 10) = Fin (5404319552844595 / 18014398509481984)"
  using binary64_eval [of "3 / 10" "-2"]
  by (simp add: pow2_def round_half_even_def Let_def floor_rat_numeral)

lemma r_c: "binary64 (5404319552844595 / 18014398509481984) = Fin (5404319552844595 / 18014398509481984)"
  using binary64_eval [of "5404319552844595 / 18014398509481984" "-2"]
  by (simp add: pow2_def round_half_even_def Let_def floor_rat_numeral)

lemma r_b: "binary64 (3602879701896397 / 36028797018963968) = Fin (3602879701896397 / 36028797018963968)"
  using binary64_eval [of "3602879701896397 / 36028797018963968" "-4"]
  by (simp add: pow2_def round_half_even_def Let_def floor_rat_numeral)

lemma r_cc: "binary64 (29206669829258403248756220714025 / 324518553658426726783156020576256) = Fin (3242591731706757 / 36028797018963968)"
  using binary64_eval [of "29206669829258403248756220714025 / 324518553658426726783156020576256" "-4"]
  by (simp add: pow2_def round_half_even_def Let_def floor_rat_numeral)

lemma r_dot00: "binary64 (3242591731706757 / 18014398509481984) = Fin (3242591731706757 / 18014398509481984)"
  using binary64_eval [of "3242591731706757 / 18014398509481984" "-3"]
  by (simp add: pow2_def round_half_even_def Let_def floor_rat_numeral)

lemma r_cb: "binary64 (19471113219505603967277331424215 / 649037107316853453566312041152512) = Fin (1080863910568919 / 36028797018963968)"
  using binary64_eval [of "19471113219505603967277331424215 / 649037107316853453566312041152512" "-6"]
  by (simp add: pow2_def round_half_even_def Let_def floor_rat_numeral)

lemma r_dot01: "binary64 (1080863910568919 / 18014398509481984) = Fin (1080863910568919 / 18014398509481984)"
  using binary64_eval [of "1080863910568919 / 18014398509481984" "-5"]
  by (simp add: pow2_def round_half_even_def Let_def floor_rat_numeral)

lemma r_bb: "binary64 (12980742146337070512478121581609 / 1298074214633706907132624082305024) = Fin (1441151880758559 / 144115188075855872)"
  using binary64_eval [of "12980742146337070512478121581609 / 1298074214633706907132624082305024" "-7"]
  by (simp add: pow2_def round_half_even_def Let_def floor_rat_numeral)

lemma r_dot11: "binary64 (1441151880758559 / 72057594037927936) = Fin (1441151880758559 / 72057594037927936)"
  using binary64_eval [of "1441151880758559 / 72057594037927936" "-6"]
  by (simp add: pow2_def round_half_even_def Let_def floor_rat_numeral)

lemma r_p1: "binary64 (4673067172681345600664905883163 / 1298074214633706907132624082305024) = Fin (2075258708292325 / 576460752303423488)"
  using binary64_eval [of "4673067172681345600664905883163 / 1298074214633706907132624082305024" "-9"]
  by (simp add: pow2_def round_half_even_def Let_def floor_rat_numeral)

lemma r_p2: "binary64 (1168266793170336129950248828561 / 324518553658426726783156020576256) = Fin (4150517416584649 / 1152921504606846976)"
  using binary64_eval [of "1168266793170336129950248828561 / 324518553658426726783156020576256" "-9"]
  by (simp add: pow2_def round_half_even_def Let_def floor_rat_numeral)

lemma r_den: "binary64 (1 / 1152921504606846976) = Fin (1 / 1152921504606846976)"
  using binary64_eval [of "1 / 1152921504606846976" "-60"]
  by (simp add: pow2_def round_half_even_def Let_def floor_rat_numeral)

lemma thin_triangle_zero_denominator:
  "\<not> degenerate (0, 0) (11585, 1) (11586, 1)
   \<and> denominator_with binary64 (tri (0, 0) (11585, 1) (11586, 1)) = Fin 0"
  using r_big1 r_big2 by (simp add: degenerate_def tri_def Let_def)

lemma collinear_nonzero_denominator:
  "degenerate (0, 0) (3602879701896397 / 36028797018963968, 3602879701896397 / 36028797018963968) (5404319552844595 / 18014398509481984, 5404319552844595 / 18014398509481984)
   \<and> denominator_with binary64
        (tri (0, 0) (3602879701896397 / 36028797018963968, 3602879701896397 / 36028797018963968) (5404319552844595 / 18014398509481984, 5404319552844595 / 18014398509481984))
      = Fin (1 / 2 ^ 60)"
  using r_c r_b r_cc r_dot00 r_cb r_dot01 r_bb r_dot11 r_p1 r_p2 r_den
  by (simp add: degenerate_def tri_def Let_def)

text \<open>
  Claim C2, amended. A degenerate triangle does not make the call fail. When the
  denominator computed for a triangle is zero, whatever the rounding, both barycentric
  coordinates of every point are \<open>NaN\<close> or infinite; with such a destination triangle
  every pixel fails the inside test and every byte of the destination (of
  \<open>4 * width * height\<close> bytes) is overwritten with 255. With such a source triangle a
  pixel inside the destination triangle is sampled from the (distinct) source at the
  offset computed through \<open>barycentric_to_cartesian\<close>, as for any other source
  triangle. Without rounding the denominator is zero exactly when the three corners are
  collinear.
\<close>

theorem zero_denominator_fills_white:
  "(denominator_with rnd t = Fin 0 \<longrightarrow>
      \<not> is_finite (fst (cartesian_to_barycentric_with rnd t p))
      \<and> \<not> is_finite (snd (cartesian_to_barycentric_with rnd t p)))
   \<and> (denominator_with rnd (triangles s da) = Fin 0 \<and> well_formed (images s dst) \<longrightarrow>
      data (images (map_triangle_js rnd src sa dst da s) dst)
        = replicate (length (data (images s dst))) 255)
   \<and> (denominator_with rnd (triangles s sa) = Fin 0 \<and> src \<noteq> dst \<and> well_formed (images s dst)
        \<and> x < width (images s dst) \<and> y < height (images s dst) \<and> k < 4
        \<and> xy_in_triangle_with rnd (cartesian_to_barycentric_with rnd (triangles s da') (num x, num y)) \<longrightarrow>
      data (images (map_triangle_js rnd src sa dst da' s) dst)
          ! (dst_pixel_start (width (images s dst)) x y + k)
        = to_clamped (array_get (data (images s src))
            (sample_offset rnd
               (src_pixel_start_with rnd (width (images s src))
                  (barycentric_to_cartesian_with rnd (triangles s sa)
                     (cartesian_to_barycentric_with rnd (triangles s da') (num x, num y))))
               k)))
   \<and> (denominator_with Fin (tri A B C) = Fin 0) = degenerate A B C"
proof (intro conjI impI)
  assume "denominator_with rnd t = Fin 0"
  then show "\<not> is_finite (fst (cartesian_to_barycentric_with rnd t p))"
    and "\<not> is_finite (snd (cartesian_to_barycentric_with rnd t p))"
    using zero_denominator_not_finite [of rnd t p] by simp_all
next
  assume a: "denominator_with rnd (triangles s da) = Fin 0 \<and> well_formed (images s dst)"
  have "\<not> xy_in_triangle_with rnd (cartesian_to_barycentric_with rnd (triangles s da) (num x', num y'))"
    for x' y'
    using a zero_denominator_not_finite [of rnd "triangles s da" "(num x', num y')"]
      in_triangle_with_finite [of rnd "cartesian_to_barycentric_with rnd (triangles s da) (num x', num y')"]
    by auto
  with a show "data (images (map_triangle_js rnd src sa dst da s) dst)
        = replicate (length (data (images s dst))) 255"
    by (intro all_white_js) simp_all
next
  assume a: "denominator_with rnd (triangles s sa) = Fin 0 \<and> src \<noteq> dst \<and> well_formed (images s dst)
        \<and> x < width (images s dst) \<and> y < height (images s dst) \<and> k < 4
        \<and> xy_in_triangle_with rnd (cartesian_to_barycentric_with rnd (triangles s da') (num x, num y))"
  then have "dst_pixel_start (width (images s dst)) x y + k < length (data (images s dst))"
    using pixel_in_range [of "images s dst" x y k] by blast
  then have "data (images (map_triangle_js rnd src sa dst da' s) dst)
               ! (dst_pixel_start (width (images s dst)) x y + k)
      = pixel_colour_with rnd (images s src) (triangles s sa) (triangles s da') x y k"
    using a by (intro map_triangle_js_pixel) simp_all
  then show "data (images (map_triangle_js rnd src sa dst da' s) dst)
          ! (dst_pixel_start (width (images s dst)) x y + k)
        = to_clamped (array_get (data (images s src))
            (sample_offset rnd
               (src_pixel_start_with rnd (width (images s src))
                  (barycentric_to_cartesian_with rnd (triangles s sa)
                     (cartesian_to_barycentric_with rnd (triangles s da') (num x, num y))))
               k))"
    using a by (simp add: pixel_colour_with_def)
next
  show "(denominator_with Fin (tri A B C) = Fin 0) = degenerate A B C"
    by (simp add: exact_denominator degenerate_iff_denom)
qed

theorem zero_denominator_fills_white_witness:
  "denominator_with binary64 (tri (0, 0) (5, 5) (10, 10)) = Fin 0
   \<and> triangles small_state 2 = tri (0, 0) (5, 5) (10, 10)
   \<and> well_formed (images small_state 1) \<and> (0::nat) \<noteq> 1
   \<and> 0 < width (images small_state 1) \<and> 0 < height (images small_state 1) \<and> (0::nat) < 4
   \<and> xy_in_triangle_with binary64
        (cartesian_to_barycentric_with binary64 (triangles small_state 1) (num 0, num 0))
   \<and> \<not> is_finite (fst (cartesian_to_barycentric_with binary64 (tri (0, 0) (5, 5) (10, 10)) (pt (1, 2))))
   \<and> \<not> is_finite (snd (cartesian_to_barycentric_with binary64 (tri (0, 0) (5, 5) (10, 10)) (pt (1, 2))))
   \<and> data (images (map_triangle_js binary64 0 2 1 2 small_state) 1)
       = [255, 255, 255, 255, 255, 255, 255, 255, 255, 255, 255, 255, 255, 255, 255, 255]
   \<and> data (images (map_triangle_js binary64 0 2 1 1 small_state) 1) ! 0 = 10
   \<and> degenerate (0, 0) (5, 5) (10, 10)"
  using zero_denominator_fills_white [where rnd = binary64 and t = "tri (0, 0) (5, 5) (10, 10)"
      and p = "pt (1, 2)" and s = small_state and dst = 1 and src = 0 and da = 2
      and sa = 2 and x = 0 and y = 0 and k = 0
      and da' = 1 and A = "(0, 0)" and B = "(5, 5)" and C = "(10, 10)"]
  by (simp add: small_state_def small_heap_def well_formed_def PIXEL_WIDTH_def tri_def num_def
      Let_def xy_in_triangle_with_def jge_def src_pixel_start_with_def dst_pixel_start_def
      sample_offset_def degenerate_def signed_inf_def)

text \<open>
  Claim C2 as stated fails: with the collinear destination triangle
  \<open>(0,0), (5,5), (10,10)\<close> the call returns and has written every destination byte.
\<close>

theorem degenerate_destination_written:
  "degenerate (0, 0) (5, 5) (10, 10)
   \<and> data (map_triangle 0 (tri (0, 0) (0, 5) (5, 5)) 1 (tri (0, 0) (5, 5) (10, 10)) small_heap 1)
       = [255, 255, 255, 255, 255, 255, 255, 255, 255, 255, 255, 255, 255, 255, 255, 255]
   \<and> data (small_heap 1) = [7, 7, 7, 7, 7, 7, 7, 7, 7, 7, 7, 7, 7, 7, 7, 7]"
  by (simp add: map_triangle_def eval_loops map_pixel_def small_heap_def tri_def num_def Let_def
      xy_in_triangle_def jge_def dst_pixel_start_def PIXEL_WIDTH_def write_data_def array_set_def
      degenerate_def signed_inf_def)





section \<open>Repeated calls\<close>

lemma map_triangle_source_kept: "src \<noteq> dst \<Longrightarrow> map_triangle src st dst dt h src = h src"
  by (subst map_triangle_only_data) simp

lemma map_triangle_width: "width (map_triangle src st dst dt h b) = width (h b)"
  by (subst map_triangle_only_data) simp

lemma map_triangle_height: "height (map_triangle src st dst dt h b) = height (h b)"
  by (subst map_triangle_only_data) simp

lemma map_triangle_nth:
  assumes "src \<noteq> dst" and "i < length (data (h dst))"
  shows "data (map_triangle src st dst dt h dst) ! i =
          (if i < PIXEL_WIDTH * (width (h dst) * height (h dst))
           then pixel_colour (h src) st dt ((i div 4) mod width (h dst)) ((i div 4) div width (h dst)) (i mod 4)
           else data (h dst) ! i)"
proof (cases "i < PIXEL_WIDTH * (width (h dst) * height (h dst))")
  case True
  let ?x = "(i div 4) mod width (h dst)" and ?y = "(i div 4) div width (h dst)" and ?k = "i mod 4"
  from pixel_decode [OF True]
  have x: "?x < width (h dst)" and y: "?y < height (h dst)" and k: "?k < 4"
    and eq: "i = dst_pixel_start (width (h dst)) ?x ?y + ?k"
    by blast+
  have "data (map_triangle src st dst dt h dst) ! (dst_pixel_start (width (h dst)) ?x ?y + ?k)
          = pixel_colour (h src) st dt ?x ?y ?k"
    using assms(1) x y k
  proof (rule map_triangle_pixel)
    show "dst_pixel_start (width (h dst)) ?x ?y + ?k < length (data (h dst))"
      using assms(2) eq by simp
  qed
  then show ?thesis using True eq by simp
next
  case False
  then show ?thesis by (simp add: map_triangle_beyond)
qed

lemma map_pixel_local:
  assumes "h' src = h src" and "h' dst = h dst"
  shows "map_pixel src st dst dt x y h' src = map_pixel src st dst dt x y h src
       \<and> map_pixel src st dst dt x y h' dst = map_pixel src st dst dt x y h dst"
  using assms by (simp add: map_pixel_def Let_def write_data_def read_data_def)

lemma run_local:
  assumes "h' src = h src" and "h' dst = h dst"
  shows "run src st dst dt ps h' src = run src st dst dt ps h src
       \<and> run src st dst dt ps h' dst = run src st dst dt ps h dst"
  using assms
proof (induction ps arbitrary: h h')
  case Nil
  then show ?case by (simp add: run_Nil)
next
  case (Cons p ps)
  show ?case
    unfolding run_Cons
    using map_pixel_local [OF Cons.prems, of st dt "fst p" "snd p"]
    by (intro Cons.IH) simp_all
qed

lemma map_triangle_local:
  assumes "h' src = h src" and "h' dst = h dst"
  shows "map_triangle src st dst dt h' dst = map_triangle src st dst dt h dst"
  unfolding map_triangle_run using run_local [OF assms, of st dt "pixels (h dst)"] assms(2) by simp

lemma same_inputs_same_bytes:
  assumes a: "h' src = h src \<and> width (h' dst) = width (h dst) \<and> height (h' dst) = height (h dst)
            \<and> well_formed (h dst) \<and> well_formed (h' dst)"
  shows "data (map_triangle src st dst dt h' dst) = data (map_triangle src st dst dt h dst)"
proof (cases "src = dst")
  case True
  then have "h' dst = h dst" using a by simp
  moreover have "h' src = h src" using a by simp
  ultimately have "map_triangle src st dst dt h' dst = map_triangle src st dst dt h dst"
    by (rule map_triangle_local [rotated])
  then show ?thesis by simp
next
  case False
  from a have len: "length (data (h' dst)) = length (data (h dst))"
    and full: "length (data (h dst)) = PIXEL_WIDTH * (width (h dst) * height (h dst))"
    by (simp_all add: well_formed_def)
  show ?thesis
  proof (rule nth_equalityI)
    show "length (data (map_triangle src st dst dt h' dst)) = length (data (map_triangle src st dst dt h dst))"
      using len by (simp add: map_triangle_length)
    fix i assume "i < length (data (map_triangle src st dst dt h' dst))"
    then have i': "i < length (data (h' dst))" by (simp add: map_triangle_length)
    then have i: "i < length (data (h dst))" using len by simp
    show "data (map_triangle src st dst dt h' dst) ! i = data (map_triangle src st dst dt h dst) ! i"
      unfolding map_triangle_nth [where h = h', OF False i'] map_triangle_nth [where h = h, OF False i]
      using a i full by simp
  qed
qed

lemma second_run_same:
  assumes "src \<noteq> dst"
  shows "map_triangle src st dst dt (map_triangle src st dst dt h) = map_triangle src st dst dt h"
proof -
  let ?h1 = "map_triangle src st dst dt h"
  have "data (map_triangle src st dst dt ?h1 dst) = data (?h1 dst)"
  proof (rule nth_equalityI)
    show "length (data (map_triangle src st dst dt ?h1 dst)) = length (data (?h1 dst))"
      by (simp add: map_triangle_length)
    fix i assume "i < length (data (map_triangle src st dst dt ?h1 dst))"
    then have i: "i < length (data (h dst))" by (simp add: map_triangle_length)
    then have i1: "i < length (data (?h1 dst))" by (simp add: map_triangle_length)
    show "data (map_triangle src st dst dt ?h1 dst) ! i = data (?h1 dst) ! i"
      unfolding map_triangle_nth [where h = ?h1, OF assms i1]
      unfolding map_triangle_nth [where h = h, OF assms i]
      by (simp add: map_triangle_width map_triangle_height map_triangle_source_kept [OF assms])
  qed
  then have "(?h1 dst)\<lparr>data := data (map_triangle src st dst dt ?h1 dst)\<rparr> = ?h1 dst"
    by simp
  then show "map_triangle src st dst dt ?h1 = ?h1"
    by (subst map_triangle_only_data) simp
qed

text \<open>
  Claim C7. Two calls with the same source image, the same triangles and destinations
  of the same dimensions, whatever the destinations held before, leave the same bytes
  in the destination. In particular, when the source is a different object from the
  destination (so that the first call leaves the source as it was), a second call on
  the result of the first changes nothing.
\<close>

theorem map_triangle_idempotent:
  "(h' src = h src \<and> width (h' dst) = width (h dst) \<and> height (h' dst) = height (h dst)
      \<and> well_formed (h dst) \<and> well_formed (h' dst)
    \<longrightarrow> data (map_triangle src st dst dt h' dst) = data (map_triangle src st dst dt h dst))
   \<and> (src \<noteq> dst
    \<longrightarrow> map_triangle src st dst dt (map_triangle src st dst dt h) = map_triangle src st dst dt h)"
  using same_inputs_same_bytes [of h' src h dst st dt] second_run_same [of src dst st dt h]
  by blast

theorem map_triangle_idempotent_witness:
  "(small_heap(1 := (small_heap 1)\<lparr>data := [1, 2, 3, 4, 5, 6, 7, 8, 9, 10, 11, 12, 13, 14, 15, 16]\<rparr>)) 0
       = small_heap 0
   \<and> width ((small_heap(1 := (small_heap 1)\<lparr>data := [1, 2, 3, 4, 5, 6, 7, 8, 9, 10, 11, 12, 13, 14, 15, 16]\<rparr>)) 1)
       = width (small_heap 1)
   \<and> height ((small_heap(1 := (small_heap 1)\<lparr>data := [1, 2, 3, 4, 5, 6, 7, 8, 9, 10, 11, 12, 13, 14, 15, 16]\<rparr>)) 1)
       = height (small_heap 1)
   \<and> well_formed (small_heap 1)
   \<and> well_formed ((small_heap(1 := (small_heap 1)\<lparr>data := [1, 2, 3, 4, 5, 6, 7, 8, 9, 10, 11, 12, 13, 14, 15, 16]\<rparr>)) 1)
   \<and> (0::nat) \<noteq> 1
   \<and> data (map_triangle 0 (tri (0, 0) (0, 5) (5, 5)) 1 (tri (0, 0) (0, 1) (1, 1))
        (small_heap(1 := (small_heap 1)\<lparr>data := [1, 2, 3, 4, 5, 6, 7, 8, 9, 10, 11, 12, 13, 14, 15, 16]\<rparr>)) 1)
       = data (map_triangle 0 (tri (0, 0) (0, 5) (5, 5)) 1 (tri (0, 0) (0, 1) (1, 1)) small_heap 1)
   \<and> map_triangle 0 (tri (0, 0) (0, 5) (5, 5)) 1 (tri (0, 0) (0, 1) (1, 1))
        (map_triangle 0 (tri (0, 0) (0, 5) (5, 5)) 1 (tri (0, 0) (0, 1) (1, 1)) small_heap)
       = map_triangle 0 (tri (0, 0) (0, 5) (5, 5)) 1 (tri (0, 0) (0, 1) (1, 1)) small_heap"
  using map_triangle_idempotent [of
      "small_heap(1 := (small_heap 1)\<lparr>data := [1, 2, 3, 4, 5, 6, 7, 8, 9, 10, 11, 12, 13, 14, 15, 16]\<rparr>)"
      0 small_heap 1 "tri (0, 0) (0, 5) (5, 5)" "tri (0, 0) (0, 1) (1, 1)"]
  by (simp add: small_heap_def well_formed_def PIXEL_WIDTH_def)


section \<open>The identity mapping\<close>

lemma identity_uv:
  "cartesian_to_barycentric (tri (0, 0) (0, 10) (10, 10)) (num x, num y)
     = (Fin (of_nat x / 10), Fin ((of_nat y - of_nat x) / 10))"
proof -
  have "area2 (0, 0) (0, 10) (10, 10) \<noteq> 0" by simp
  from c2b_finite [OF this, of "of_nat x" "of_nat y"] show ?thesis
    by (simp add: num_def diff_divide_distrib)
qed

lemma identity_inside:
  "y < 10 \<Longrightarrow>
   xy_in_triangle (cartesian_to_barycentric (tri (0, 0) (0, 10) (10, 10)) (num x, num y)) \<longleftrightarrow> x \<le> y"
  unfolding identity_uv
  by (simp add: xy_in_triangle_def jge_def flip: add_divide_distrib)

lemma identity_source_point:
  "barycentric_to_cartesian (tri (0, 0) (0, 10) (10, 10))
     (cartesian_to_barycentric (tri (0, 0) (0, 10) (10, 10)) (num x, num y)) = (num x, num y)"
  unfolding identity_uv b2c_finite
  by (simp add: num_def diff_divide_distrib)

lemma src_pixel_start_num: "src_pixel_start W (num x, num y) = num (dst_pixel_start W x y)"
  by (simp add: src_pixel_start_def dst_pixel_start_def num_def)

text \<open>
  Claim C8. Source and destination triangle are both \<open>(0,0), (0,10), (10,10)\<close>, both
  images are ten by ten pixels. After the call every destination pixel inside the
  triangle (those with \<open>x \<le> y\<close>) holds the bytes of the source pixel at the same
  place, whatever the source holds, and every other pixel holds 255.
\<close>

theorem identity_mapping:
  assumes "src \<noteq> dst"
    and "width (h src) = 10" and "height (h src) = 10" and "well_formed (h src)"
    and "width (h dst) = 10" and "height (h dst) = 10" and "well_formed (h dst)"
    and "x < 10" and "y < 10" and "k < 4"
  shows "data (map_triangle src (tri (0, 0) (0, 10) (10, 10)) dst (tri (0, 0) (0, 10) (10, 10)) h dst)
           ! (dst_pixel_start 10 x y + k)
         = (if xy_in_triangle (cartesian_to_barycentric (tri (0, 0) (0, 10) (10, 10)) (num x, num y))
            then data (h src) ! (dst_pixel_start 10 x y + k) else 255)
       \<and> (xy_in_triangle (cartesian_to_barycentric (tri (0, 0) (0, 10) (10, 10)) (num x, num y))
            \<longleftrightarrow> x \<le> y)"
proof -
  let ?T = "tri (0, 0) (0, 10) (10, 10)"
  have xd: "x < width (h dst)" and yd: "y < height (h dst)"
    using assms by simp_all
  have xs: "x < width (h src)" and ys: "y < height (h src)"
    using assms by simp_all
  have "dst_pixel_start (width (h dst)) x y + k < length (data (h dst))"
    using assms(7) xd yd assms(10) by (rule pixel_in_range)
  with assms(1) xd yd assms(10)
  have "data (map_triangle src ?T dst ?T h dst) ! (dst_pixel_start (width (h dst)) x y + k)
          = pixel_colour (h src) ?T ?T x y k"
    by (rule map_triangle_pixel)
  moreover have "dst_pixel_start (width (h src)) x y + k < length (data (h src))"
    using assms(4) xs ys assms(10) by (rule pixel_in_range)
  then have "xy_in_triangle (cartesian_to_barycentric ?T (num x, num y)) \<Longrightarrow>
      pixel_colour (h src) ?T ?T x y k = data (h src) ! (dst_pixel_start 10 x y + k)"
    using assms(2)
    by (simp add: pixel_colour_def identity_source_point src_pixel_start_num jadd_num array_get_num)
  moreover have "\<not> xy_in_triangle (cartesian_to_barycentric ?T (num x, num y)) \<Longrightarrow>
      pixel_colour (h src) ?T ?T x y k = 255"
    by (simp add: pixel_colour_def)
  ultimately show ?thesis
    using assms(5) identity_inside [OF assms(9), of x] by simp
qed

theorem identity_mapping_witness:
  "(0::nat) \<noteq> 1 \<and> width (identity_heap 0) = 10 \<and> height (identity_heap 0) = 10
   \<and> well_formed (identity_heap 0) \<and> width (identity_heap 1) = 10 \<and> height (identity_heap 1) = 10
   \<and> well_formed (identity_heap 1) \<and> (3::nat) < 10 \<and> (5::nat) < 10 \<and> (1::nat) < 4
   \<and> xy_in_triangle (cartesian_to_barycentric (tri (0, 0) (0, 10) (10, 10)) (num 3, num 5))
   \<and> data (map_triangle 0 (tri (0, 0) (0, 10) (10, 10)) 1 (tri (0, 0) (0, 10) (10, 10)) identity_heap 1)
        ! (dst_pixel_start 10 3 5 + 1) = 213"
  using identity_mapping [of 0 1 identity_heap 3 5 1]
  by (simp add: identity_heap_def gradient_def well_formed_def PIXEL_WIDTH_def dst_pixel_start_def)

end
